theory Spec2Isabelle
  imports Main "HOL-Library.AList"
begin

section \<open>CSS custom properties (setCustomProperty, getCustomProperty)\<close>

text \<open>
  The TypeScript types \<open>PropertyMap = Record<string, string | number>\<close> and
  \<open>PropertyInput = string | PropertyMap\<close>. A property map is kept as the list that
  \<open>Object.entries\<close> returns; the value type \<open>'v\<close> stands for \<open>string | number\<close>.
  The optional third argument \<open>value\<close> is an option: \<open>None\<close> is \<open>undefined\<close>.
\<close>

type_synonym 'v PropertyMap = "(string \<times> 'v) list"

datatype 'v PropertyInput = PropName string | PropMap "'v PropertyMap"

datatype error = Error string

text \<open>
  The target's \<open>style\<close> object is the host's. It is modelled by the \<open>setProperty\<close>
  calls it has received, oldest first; \<open>None\<close> is a target whose \<open>style\<close> is falsy
  (the source guards with \<open>if (target.style)\<close>).
\<close>

record 'v target =
  style :: "(string \<times> 'v) list option"

definition setProperty :: "(string \<times> 'v) list \<Rightarrow> string \<Rightarrow> 'v \<Rightarrow> (string \<times> 'v) list" where
  "setProperty st name v = st @ [(name, v)]"

text \<open>\<open>`--${property.replace(/^--/g, '')}`\<close>: one leading \<open>--\<close> is dropped, then \<open>--\<close> is put in front.\<close>

definition strip_dashes :: "string \<Rightarrow> string" where
  "strip_dashes p = (case p of c1 # c2 # r \<Rightarrow> (if c1 = CHR ''-'' \<and> c2 = CHR ''-'' then r else p) | _ \<Rightarrow> p)"

definition custom_name :: "string \<Rightarrow> string" where
  "custom_name property = ''--'' @ strip_dashes property"

definition setCustomProperty :: "'v target \<Rightarrow> 'v PropertyInput \<Rightarrow> 'v option \<Rightarrow> error + 'v target" where
  "setCustomProperty tgt properties val =
     (case (case properties of
              PropName name \<Rightarrow>
                (case val of
                   Some v \<Rightarrow> Inr [(name, v)]
                 | None \<Rightarrow> Inl (Error ''Value must be defined when properties is a string''))
            | PropMap m \<Rightarrow> Inr m) of
        Inl e \<Rightarrow> Inl e
      | Inr propMap \<Rightarrow>
          (case style tgt of
             Some st \<Rightarrow>
               Inr (tgt\<lparr>style := Some (foldl (\<lambda>acc (property, v). setProperty acc (custom_name property) v) st propMap)\<rparr>)
           | None \<Rightarrow> Inr tgt))"

text \<open>
  \<open>getCustomProperty(target, ...properties)\<close> takes strings and booleans. The computed
  style of the target is the host's: \<open>computed name\<close> is what
  \<open>getComputedStyle(target).getPropertyValue(name)\<close> returns. JavaScript numbers are
  floating point; the two conversions the source applies (\<open>+value\<close> and
  \<open>Number(parseFloat(value).toFixed(4))\<close>) are taken from the host as well.
\<close>

datatype prop_arg = PStr string | PBool bool

datatype 'n prop_value = VStr string | VNum 'n

datatype 'n PropertyOutput = OutStr string | OutNum 'n | OutMap "(string \<times> 'n prop_value) list"

record 'n numeric =
  unary_plus :: "string \<Rightarrow> 'n"
  parse_fixed4 :: "string \<Rightarrow> 'n"

definition ValidCssUnits :: "string list" where
  "ValidCssUnits = [''em'', ''ex'', ''ch'', ''rem'', ''vw'', ''vh'', ''vmin'', ''vmax'',
                    ''cm'', ''mm'', ''in'', ''px'', ''pt'', ''pc'']"

definition endsWith :: "string \<Rightarrow> string \<Rightarrow> bool" where
  "endsWith v u = (length u \<le> length v \<and> drop (length v - length u) v = u)"

definition parseCssUnits :: "'n numeric \<Rightarrow> string \<Rightarrow> string list \<Rightarrow> 'n prop_value" where
  "parseCssUnits num v units =
     (case find (\<lambda>unit. endsWith v unit) units of
        Some unit \<Rightarrow> (if unit \<noteq> [] then VNum (parse_fixed4 num v) else VStr v)
      | None \<Rightarrow> VStr v)"

text \<open>\<open>String.prototype.trim\<close>, on the ASCII white space; the white space beyond ASCII that
  JavaScript also strips (U+00A0, U+FEFF, U+2028 and others) is left in place here.\<close>

definition is_space :: "char \<Rightarrow> bool" where
  "is_space c = List.member [CHR '' '', CHR 0x09, CHR 0x0A, CHR 0x0B, CHR 0x0C, CHR 0x0D] c"

definition trim :: "string \<Rightarrow> string" where
  "trim v = rev (dropWhile is_space (rev (dropWhile is_space v)))"

text \<open>The test \<open>/^-?\<backslash>d+$/\<close>.\<close>

definition is_digit :: "char \<Rightarrow> bool" where
  "is_digit c = List.member ''0123456789'' c"

definition matches_integer :: "string \<Rightarrow> bool" where
  "matches_integer v =
     (let ds = (case v of c # r \<Rightarrow> (if c = CHR ''-'' then r else v) | [] \<Rightarrow> v)
      in ds \<noteq> [] \<and> list_all is_digit ds)"

definition propertyNames_of :: "prop_arg list \<Rightarrow> string list" where
  "propertyNames_of properties = concat (map (\<lambda>e. case e of PStr s \<Rightarrow> [s] | PBool b \<Rightarrow> []) properties)"

definition lookup_value :: "'n numeric \<Rightarrow> (string \<Rightarrow> string) \<Rightarrow> bool \<Rightarrow> string \<Rightarrow> 'n prop_value" where
  "lookup_value num computed shouldParseCssUnits property =
     (let raw = trim (computed (custom_name property));
          v = (if matches_integer raw then VNum (unary_plus num raw) else VStr raw)
      in case v of
           VStr s \<Rightarrow> (if shouldParseCssUnits then parseCssUnits num s ValidCssUnits else v)
         | VNum n \<Rightarrow> v)"

text \<open>\<open>result[property] = value\<close> on an object accumulator. The names are kept in the order
  they were first assigned; a JavaScript object lists integer-like names first and does not
  take \<open>__proto__\<close> as a name of its own, which is not modelled.\<close>

definition record_value :: "'n PropertyOutput \<Rightarrow> string \<Rightarrow> 'n prop_value \<Rightarrow> 'n PropertyOutput" where
  "record_value result property v =
     (case result of OutMap m \<Rightarrow> OutMap (AList.update property v m) | _ \<Rightarrow> result)"

definition getCustomProperty :: "'n numeric \<Rightarrow> (string \<Rightarrow> string) \<Rightarrow> prop_arg list \<Rightarrow> 'n PropertyOutput" where
  "getCustomProperty num computed properties =
     (let shouldParseCssUnits = List.member properties (PBool True);
          propertyNames = propertyNames_of properties;
          result = (if length propertyNames = 1 then OutStr [] else OutMap [])
      in foldl (\<lambda>result property.
                  record_value result property (lookup_value num computed shouldParseCssUnits property))
               result propertyNames)"


section \<open>The mutation registry (MutationObserverHelper)\<close>

text \<open>
  DOM nodes are identified by a number; the constructor is the class the source tests
  with \<open>instanceof\<close>. \<open>OtherNode\<close> is every node that is neither an \<open>HTMLElement\<close> nor
  an \<open>SVGElement\<close> (text, comments, other elements).
\<close>

datatype node = HTMLElement nat | SVGElement nat | OtherNode nat

fun is_element :: "node \<Rightarrow> bool" where
  "is_element (HTMLElement k) = True"
| "is_element (SVGElement k) = True"
| "is_element (OtherNode k) = False"

datatype mutation_type = childList | attributes | characterData

record MutationRecord =
  mtype :: mutation_type
  addedNodes :: "node list"
  removedNodes :: "node list"

datatype event_type = Added | Deleted

text \<open>A \<open>mutation\<close> CustomEvent dispatched on \<open>ev_target\<close>, with its \<open>detail\<close>.\<close>

record mutation_event =
  ev_target :: node
  ev_type :: event_type
  ev_element :: node

text \<open>
  The subscriber's callback \<open>callback(node, confirm)\<close> is the caller's code. It is
  modelled by the elements it passes to \<open>confirm\<close> before it returns, in call order; a
  \<open>confirm\<close> kept for later is the operation \<open>confirm\<close> below, applied when it is called.
\<close>

type_synonym CustomCallback = "node \<Rightarrow> node list"

text \<open>
  \<open>ObserverInfo\<close> objects and native \<open>MutationObserver\<close> objects are shared by reference
  (the registry map, the closures of the observer callback and of every returned
  handle), so both live in a store and are referred to by their index. A native observer
  keeps the variables its callback closes over: \<open>callback\<close>, \<open>observeElement\<close>,
  \<open>autoUnobserve\<close> and \<open>observerInfo\<close> of the call that created it.
\<close>

record ObserverInfo =
  confirmedElements :: "node set"
  observer :: nat

record closure =
  c_callback :: CustomCallback
  c_observeElement :: node
  c_autoUnobserve :: bool
  c_observerInfo :: nat

record MutationObserver =
  watching :: "node option"
  env :: closure

record registry =
  observers :: "node \<rightharpoonup> nat"
  infos :: "ObserverInfo list"
  natives :: "MutationObserver list"
  events :: "mutation_event list"

record Options =
  observeElement :: "node option"
  autoUnobserve :: "bool option"

record handle =
  h_observeElement :: node
  h_observerInfo :: nat

definition empty_registry :: registry where
  "empty_registry = \<lparr>observers = Map.empty, infos = [], natives = [], events = []\<rparr>"

definition documentElement :: node where
  "documentElement = HTMLElement 0"

text \<open>Store access. A reference held by the source is always live; an index out of the store changes nothing.\<close>

definition update_info :: "nat \<Rightarrow> (ObserverInfo \<Rightarrow> ObserverInfo) \<Rightarrow> registry \<Rightarrow> registry" where
  "update_info i f s = (if i < length (infos s) then s\<lparr>infos := (infos s)[i := f (infos s ! i)]\<rparr> else s)"

definition has_confirmed :: "registry \<Rightarrow> nat \<Rightarrow> node \<Rightarrow> bool" where
  "has_confirmed s i n = (i < length (infos s) \<and> n \<in> confirmedElements (infos s ! i))"

text \<open>\<open>MutationObserver.disconnect()\<close>: the observer watches nothing any more.\<close>

definition disconnect :: "nat \<Rightarrow> registry \<Rightarrow> registry" where
  "disconnect ob s =
     (if ob < length (natives s) then s\<lparr>natives := (natives s)[ob := (natives s ! ob)\<lparr>watching := None\<rparr>]\<rparr> else s)"

definition disconnect_observer_of :: "nat \<Rightarrow> registry \<Rightarrow> registry" where
  "disconnect_observer_of i s = (if i < length (infos s) then disconnect (observer (infos s ! i)) s else s)"

definition triggerEvent :: "node \<Rightarrow> event_type \<Rightarrow> node \<Rightarrow> registry \<Rightarrow> registry" where
  "triggerEvent root ty n s = s\<lparr>events := events s @ [\<lparr>ev_target = root, ev_type = ty, ev_element = n\<rparr>]\<rparr>"

text \<open>The function handed to the subscriber's callback: \<open>confirmedElements.add(el); triggerEvent('added', el)\<close>.\<close>

definition confirm :: "closure \<Rightarrow> node \<Rightarrow> registry \<Rightarrow> registry" where
  "confirm c el s =
     triggerEvent (c_observeElement c) Added el
       (update_info (c_observerInfo c) (\<lambda>info. info\<lparr>confirmedElements := insert el (confirmedElements info)\<rparr>) s)"

definition on_added :: "closure \<Rightarrow> registry \<Rightarrow> node \<Rightarrow> registry" where
  "on_added c s n =
     (if is_element n then
        (if \<not> has_confirmed s (c_observerInfo c) n
         then foldl (\<lambda>s el. confirm c el s) s (c_callback c n)
         else s)
      else s)"

definition on_removed :: "closure \<Rightarrow> registry \<Rightarrow> node \<Rightarrow> registry" where
  "on_removed c s n =
     (if is_element n then
        (if has_confirmed s (c_observerInfo c) n then
           (let s1 = update_info (c_observerInfo c) (\<lambda>info. info\<lparr>confirmedElements := confirmedElements info - {n}\<rparr>) s;
                s2 = triggerEvent (c_observeElement c) Deleted n s1
            in if c_autoUnobserve c then disconnect_observer_of (c_observerInfo c) s2 else s2)
         else s)
      else s)"

definition on_mutation :: "closure \<Rightarrow> registry \<Rightarrow> MutationRecord \<Rightarrow> registry" where
  "on_mutation c s m =
     (if mtype m = childList
      then foldl (on_removed c) (foldl (on_added c) s (addedNodes m)) (removedNodes m)
      else s)"

text \<open>The callback given to \<open>new MutationObserver\<close>, run on a batch of records.\<close>

definition observer_callback :: "closure \<Rightarrow> MutationRecord list \<Rightarrow> registry \<Rightarrow> registry" where
  "observer_callback c mutationsList s = foldl (on_mutation c) s mutationsList"

text \<open>The host hands a batch to a native observer only while that observer is connected.\<close>

definition deliver :: "nat \<Rightarrow> MutationRecord list \<Rightarrow> registry \<Rightarrow> registry" where
  "deliver ob ms s =
     (if ob < length (natives s) \<and> watching (natives s ! ob) \<noteq> None
      then observer_callback (env (natives s ! ob)) ms s
      else s)"

definition root_of :: "Options \<Rightarrow> node" where
  "root_of options = (case observeElement options of Some e \<Rightarrow> e | None \<Rightarrow> documentElement)"

definition MutationObserverHelper :: "CustomCallback \<Rightarrow> Options \<Rightarrow> registry \<Rightarrow> handle \<times> registry" where
  "MutationObserverHelper callback options s =
     (let root = root_of options;
          auto = (case autoUnobserve options of Some b \<Rightarrow> b | None \<Rightarrow> False)
      in case observers s root of
           Some i \<Rightarrow> (\<lparr>h_observeElement = root, h_observerInfo = i\<rparr>, s)
         | None \<Rightarrow>
             (let i = length (infos s);
                  ob = length (natives s);
                  c = \<lparr>c_callback = callback, c_observeElement = root, c_autoUnobserve = auto, c_observerInfo = i\<rparr>
              in (\<lparr>h_observeElement = root, h_observerInfo = i\<rparr>,
                  s\<lparr>infos := infos s @ [\<lparr>confirmedElements = {}, observer = ob\<rparr>],
                    natives := natives s @ [\<lparr>watching = Some root, env = c\<rparr>],
                    observers := (observers s)(root \<mapsto> i)\<rparr>)))"

text \<open>The handle's \<open>unobserve(element?)\<close>; \<open>None\<close> is the call with no argument.\<close>

definition unobserve :: "handle \<Rightarrow> node option \<Rightarrow> registry \<Rightarrow> registry" where
  "unobserve h element s =
     (case element of
        Some el \<Rightarrow>
          update_info (h_observerInfo h) (\<lambda>info. info\<lparr>confirmedElements := confirmedElements info - {el}\<rparr>) s
      | None \<Rightarrow>
          (disconnect_observer_of (h_observerInfo h) s)\<lparr>observers := (observers s)(h_observeElement h := None)\<rparr>)"

text \<open>Measures used by the properties: the native observers watching a root, and the \<open>deleted\<close> events of an element.\<close>

definition watchers :: "registry \<Rightarrow> node \<Rightarrow> nat" where
  "watchers s root = length (filter (\<lambda>m. watching m = Some root) (natives s))"

definition deleted_count :: "registry \<Rightarrow> node \<Rightarrow> nat" where
  "deleted_count s el = length (filter (\<lambda>e. ev_type e = Deleted \<and> ev_element e = el) (events s))"

definition removes :: "node \<Rightarrow> MutationRecord list \<Rightarrow> bool" where
  "removes el ms = list_ex (\<lambda>m. mtype m = childList \<and> List.member (removedNodes m) el) ms"

definition callback_confirms :: "closure \<Rightarrow> node \<Rightarrow> MutationRecord list \<Rightarrow> bool" where
  "callback_confirms c el ms =
     list_ex (\<lambda>m. list_ex (\<lambda>n. List.member (c_callback c n) el) (addedNodes m)) ms"


text \<open>A relation used in the proofs about \<open>autoUnobserve\<close>: from \<open>s\<close> to \<open>s'\<close> the observer of
  info \<open>i\<close> stays \<open>ob\<close>, stays disconnected once it is, and is disconnected whenever a
  \<open>deleted\<close> event for \<open>el\<close> was dispatched in between.\<close>

definition teardown_rel :: "nat \<Rightarrow> nat \<Rightarrow> node \<Rightarrow> registry \<Rightarrow> registry \<Rightarrow> bool" where
  "teardown_rel i ob el s s' =
     (i < length (infos s) \<and> observer (infos s ! i) = ob \<and> ob < length (natives s)
      \<longrightarrow> i < length (infos s') \<and> observer (infos s' ! i) = ob \<and> ob < length (natives s')
          \<and> (watching (natives s ! ob) = None \<longrightarrow> watching (natives s' ! ob) = None)
          \<and> (deleted_count s' el \<noteq> deleted_count s el \<longrightarrow> watching (natives s' ! ob) = None))"

text \<open>Concrete registries for the examples: subscribers that confirm every element offered to them.\<close>

definition ex_root :: node where "ex_root = HTMLElement 1"

definition ex_first :: "handle \<times> registry" where
  "ex_first = MutationObserverHelper (\<lambda>n. [n]) \<lparr>observeElement = Some ex_root, autoUnobserve = None\<rparr> empty_registry"



definition ex_closure :: "bool \<Rightarrow> closure" where
  "ex_closure auto = \<lparr>c_callback = (\<lambda>n. [n]), c_observeElement = ex_root, c_autoUnobserve = auto, c_observerInfo = 0\<rparr>"

definition ex_registry :: "bool \<Rightarrow> registry" where
  "ex_registry auto =
     snd (MutationObserverHelper (\<lambda>n. [n]) \<lparr>observeElement = Some ex_root, autoUnobserve = Some auto\<rparr> empty_registry)"

definition ex_removal :: "node \<Rightarrow> MutationRecord list" where
  "ex_removal el = [\<lparr>mtype = childList, addedNodes = [], removedNodes = [el]\<rparr>]"

definition ex_addition :: "node list \<Rightarrow> MutationRecord list" where
  "ex_addition els = [\<lparr>mtype = childList, addedNodes = els, removedNodes = []\<rparr>]"

definition ex_confirmed :: registry where
  "ex_confirmed = deliver 0 (ex_addition [HTMLElement 7, HTMLElement 8]) (ex_registry True)"

section \<open>The collapsible section (Details)\<close>

text \<open>
  Elements are identified by a number. \<open>Px n\<close> is the template string \<open>`${n}px`\<close>; an inline
  \<open>style.height\<close> of \<open>''\<close> is \<open>None\<close>. An element carries what the class reads and writes
  on \<open>this.el\<close>, and the heights the host reports for its \<open>summary\<close> and its content
  element (\<open>this.summary.offsetHeight\<close>, \<open>this.content.offsetHeight\<close>).
\<close>

type_synonym elem = nat

datatype css_length = Px nat

record element =
  tagName :: string
  el_open :: bool
  classList :: "string set"
  style_height :: "css_length option"
  style_overflow :: string
  summary_offsetHeight :: nat
  content_offsetHeight :: nat

text \<open>
  An \<open>Animation\<close> returned by \<open>el.animate\<close>. \<open>handlers\<close> says which method created it and so
  which \<open>onfinish\<close> and \<open>oncancel\<close> it carries: those of \<open>expand\<close> or those of \<open>shrink\<close>.
  \<open>current\<close> is the height the animation gives its target while it runs.
\<close>

datatype play_state = Running | Finished | Idle

datatype transition = Expanding | Shrinking

record animation_obj =
  a_target :: elem
  keyframes :: "css_length \<times> css_length"
  duration :: nat
  easing :: string
  playState :: play_state
  handlers :: transition
  current :: nat

text \<open>The fields of a \<open>Details\<close> object other than its elements; \<open>this.el\<close> is the key it is stored under.\<close>

record Details =
  animation :: "nat option"
  isClosing :: bool
  isExpanding :: bool
  siblings :: "elem list"

text \<open>
  The page: the elements and their tree, the \<open>Details\<close> object of an element (its
  \<open>expand\<close> and \<open>shrink\<close> properties are defined exactly when it has one), every animation
  created so far, and what the event loop holds: the \<open>requestAnimationFrame\<close> callbacks
  \<open>() => this.expand(instant)\<close>, the \<open>setTimeout\<close> callbacks of the constructors, and the
  queued \<open>finish\<close> and \<open>cancel\<close> events of animations.
\<close>

record world =
  elements :: "elem \<Rightarrow> element"
  dom_parent :: "elem \<Rightarrow> elem option"
  dom_children :: "elem \<Rightarrow> elem list"
  instances :: "elem \<Rightarrow> Details option"
  animations :: "animation_obj list"
  frame_requests :: "(elem \<times> bool) list"
  timeouts :: "elem list"
  finish_events :: "nat list"
  cancel_events :: "nat list"

definition upd_element :: "elem \<Rightarrow> (element \<Rightarrow> element) \<Rightarrow> world \<Rightarrow> world" where
  "upd_element e f w = w\<lparr>elements := (elements w)(e := f (elements w e))\<rparr>"

definition upd_instance :: "elem \<Rightarrow> (Details \<Rightarrow> Details) \<Rightarrow> world \<Rightarrow> world" where
  "upd_instance e f w =
     (case instances w e of Some d \<Rightarrow> w\<lparr>instances := (instances w)(e \<mapsto> f d)\<rparr> | None \<Rightarrow> w)"

text \<open>
  The host's layout, as far as the class asks for it: \<open>el.offsetHeight\<close> is the height a
  running animation gives the element, else its inline height, else the summary's height
  plus, when the element is open, the content's height.
\<close>

definition running_on :: "world \<Rightarrow> elem \<Rightarrow> animation_obj option" where
  "running_on w e = find (\<lambda>a. a_target a = e \<and> playState a = Running) (rev (animations w))"

definition offsetHeight :: "world \<Rightarrow> elem \<Rightarrow> nat" where
  "offsetHeight w e =
     (case running_on w e of
        Some a \<Rightarrow> current a
      | None \<Rightarrow>
          (case style_height (elements w e) of
             Some (Px h) \<Rightarrow> h
           | None \<Rightarrow>
               (if el_open (elements w e)
                then summary_offsetHeight (elements w e) + content_offsetHeight (elements w e)
                else summary_offsetHeight (elements w e))))"

text \<open>
  \<open>el.animate({height: [startHeight, endHeight]}, {duration, easing: 'ease-in-out'})\<close>; the
  new animation's index is the length of the store before. An animation of duration 0 (the
  \<open>instant\<close> case) has nothing to play: the host reports it finished as soon as it is
  created and queues its \<open>finish\<close> event, which is dispatched later. An animation of
  duration 300 runs.
\<close>

definition animate :: "elem \<Rightarrow> css_length \<Rightarrow> css_length \<Rightarrow> nat \<Rightarrow> transition \<Rightarrow> world \<Rightarrow> world" where
  "animate e startHeight endHeight dur h w =
     w\<lparr>animations := animations w @
          [\<lparr>a_target = e, keyframes = (startHeight, endHeight), duration = dur,
            easing = ''ease-in-out'', playState = (if dur = 0 then Finished else Running),
            handlers = h, current = (case startHeight of Px n \<Rightarrow> n)\<rparr>],
       finish_events := finish_events w @ (if dur = 0 then [length (animations w)] else [])\<rparr>"

text \<open>
  \<open>Animation.cancel()\<close>: an animation that is not idle (running, or finished) becomes idle
  and its \<open>cancel\<close> event is queued. A \<open>finish\<close> event that is already queued stays queued.
\<close>

definition cancel :: "nat \<Rightarrow> world \<Rightarrow> world" where
  "cancel a w =
     (if a < length (animations w) \<and> playState (animations w ! a) \<noteq> Idle
      then w\<lparr>animations := (animations w)[a := (animations w ! a)\<lparr>playState := Idle\<rparr>],
             cancel_events := cancel_events w @ [a]\<rparr>
      else w)"

definition cancel_current :: "elem \<Rightarrow> world \<Rightarrow> world" where
  "cancel_current e w =
     (case instances w e of
        Some d \<Rightarrow> (case animation d of Some a \<Rightarrow> cancel a w | None \<Rightarrow> w)
      | None \<Rightarrow> w)"

definition shrink :: "elem \<Rightarrow> bool \<Rightarrow> world \<Rightarrow> world" where
  "shrink e instant w =
     (case instances w e of
        None \<Rightarrow> w
      | Some d \<Rightarrow>
          (let w1 = upd_instance e (\<lambda>d. d\<lparr>isClosing := True\<rparr>) w;
               startHeight = Px (offsetHeight w1 e);
               endHeight = Px (summary_offsetHeight (elements w1 e));
               w2 = cancel_current e w1;
               a = length (animations w2);
               w3 = animate e startHeight endHeight (if instant then 0 else 300) Shrinking w2
           in upd_instance e (\<lambda>d. d\<lparr>animation := Some a\<rparr>) w3))"

definition expand :: "elem \<Rightarrow> bool \<Rightarrow> world \<Rightarrow> world" where
  "expand e instant w =
     (case instances w e of
        None \<Rightarrow> w
      | Some d \<Rightarrow>
          (let w1 = upd_instance e (\<lambda>d. d\<lparr>isExpanding := True\<rparr>) w;
               startHeight = Px (offsetHeight w1 e);
               endHeight = Px (summary_offsetHeight (elements w1 e) + content_offsetHeight (elements w1 e));
               w2 = cancel_current e w1;
               a = length (animations w2);
               w3 = animate e startHeight endHeight (if instant then 0 else 300) Expanding w2
           in upd_instance e (\<lambda>d. d\<lparr>animation := Some a\<rparr>) w3))"

text \<open>\<open>open(instant)\<close>. \<open>details.shrink?.(instant)\<close> calls the sibling's \<open>shrink\<close> when the sibling has one; \<open>shrink\<close> above does nothing on an element without a \<open>Details\<close> object.\<close>

definition open_section :: "elem \<Rightarrow> bool \<Rightarrow> world \<Rightarrow> world" where
  "open_section e instant w =
     (case instances w e of
        None \<Rightarrow> w
      | Some d \<Rightarrow>
          (let w1 = upd_element e (\<lambda>x. x\<lparr>style_height := Some (Px (offsetHeight w e))\<rparr>) w;
               w2 = upd_element e (\<lambda>x. x\<lparr>el_open := True\<rparr>) w1;
               w3 = w2\<lparr>frame_requests := frame_requests w2 @ [(e, instant)]\<rparr>
           in if ''singleton'' \<in> classList (elements w3 e) \<and> siblings d \<noteq> []
              then foldl (\<lambda>w sib. shrink sib instant w) w3 (siblings d)
              else w3))"

definition onAnimationFinish :: "elem \<Rightarrow> bool \<Rightarrow> world \<Rightarrow> world" where
  "onAnimationFinish e opn w =
     (let w1 = upd_element e (\<lambda>x. x\<lparr>el_open := opn\<rparr>) w;
          w2 = upd_instance e (\<lambda>d. d\<lparr>animation := None, isClosing := False, isExpanding := False\<rparr>) w1;
          w3 = upd_element e (\<lambda>x. x\<lparr>classList := (if opn then insert ''visible'' (classList x)
                                                     else classList x - {''visible''})\<rparr>) w2
      in upd_element e (\<lambda>x. x\<lparr>style_height := None, style_overflow := []\<rparr>) w3)"

definition onClick :: "elem \<Rightarrow> world \<Rightarrow> world" where
  "onClick e w =
     (case instances w e of
        None \<Rightarrow> w
      | Some d \<Rightarrow>
          (let w1 = upd_element e (\<lambda>x. x\<lparr>style_overflow := ''hidden''\<rparr>) w
           in if isClosing d \<or> \<not> el_open (elements w1 e) then open_section e False w1
              else if isExpanding d \<or> el_open (elements w1 e) then shrink e False w1
              else w1))"

text \<open>
  The constructor, for an element that has no \<open>Details\<close> object yet (the module builds one
  per \<open>details.accordion\<close> element), and the callback it leaves with \<open>setTimeout\<close>.
\<close>

definition construct :: "elem \<Rightarrow> world \<Rightarrow> world" where
  "construct e w =
     w\<lparr>instances := (instances w)(e \<mapsto> \<lparr>animation = None, isClosing = False, isExpanding = False, siblings = []\<rparr>),
       timeouts := timeouts w @ [e]\<rparr>"

definition capture_siblings :: "elem \<Rightarrow> world \<Rightarrow> world" where
  "capture_siblings e w =
     upd_instance e
       (\<lambda>d. d\<lparr>siblings :=
               filter (\<lambda>c. c \<noteq> e \<and> tagName (elements w e) = tagName (elements w c))
                 (case dom_parent w e of Some p \<Rightarrow> dom_children w p | None \<Rightarrow> [])\<rparr>) w"

text \<open>
  The handlers the class attaches to an animation. \<open>onfinish\<close>: the one of \<open>expand\<close> first
  calls \<open>updateMetrics\<close> on the embedded table containers, which touches nothing kept here,
  then \<open>onAnimationFinish(true)\<close>; the one of \<open>shrink\<close> is \<open>onAnimationFinish(false)\<close>.
  \<open>oncancel\<close> clears \<open>isExpanding\<close> or \<open>isClosing\<close>. The handlers act on the \<open>Details\<close> object
  that created the animation, whatever animation that object holds by then.
\<close>

definition onfinish :: "animation_obj \<Rightarrow> world \<Rightarrow> world" where
  "onfinish x w =
     (case handlers x of
        Expanding \<Rightarrow> onAnimationFinish (a_target x) True w
      | Shrinking \<Rightarrow> onAnimationFinish (a_target x) False w)"

definition oncancel :: "animation_obj \<Rightarrow> world \<Rightarrow> world" where
  "oncancel x w =
     (case handlers x of
        Expanding \<Rightarrow> upd_instance (a_target x) (\<lambda>d. d\<lparr>isExpanding := False\<rparr>) w
      | Shrinking \<Rightarrow> upd_instance (a_target x) (\<lambda>d. d\<lparr>isClosing := False\<rparr>) w)"

text \<open>
  What the host does. A running animation reaches its end: it is finished and its
  \<open>onfinish\<close> runs (\<open>finish\<close>). A queued \<open>finish\<close> event, that of an animation of duration 0,
  is dispatched: its \<open>onfinish\<close> runs, also when the animation has been cancelled in
  between (\<open>dispatch_finish\<close>). A queued \<open>cancel\<close> event is dispatched: its \<open>oncancel\<close> runs.
  An animation frame runs the callbacks requested before it, in order.
\<close>

definition mark_finished :: "nat \<Rightarrow> world \<Rightarrow> world" where
  "mark_finished a w = w\<lparr>animations := (animations w)[a := (animations w ! a)\<lparr>playState := Finished\<rparr>]\<rparr>"

definition finish :: "nat \<Rightarrow> world \<Rightarrow> world" where
  "finish a w =
     (if a < length (animations w) \<and> playState (animations w ! a) = Running
      then onfinish (animations w ! a) (mark_finished a w)
      else w)"

definition dispatch_finish :: "world \<Rightarrow> world" where
  "dispatch_finish w =
     (case finish_events w of
        [] \<Rightarrow> w
      | a # rest \<Rightarrow>
          (let w1 = w\<lparr>finish_events := rest\<rparr>
           in if a < length (animations w1) then onfinish (animations w1 ! a) w1 else w1))"

definition dispatch_cancel :: "world \<Rightarrow> world" where
  "dispatch_cancel w =
     (case cancel_events w of
        [] \<Rightarrow> w
      | a # rest \<Rightarrow>
          (let w1 = w\<lparr>cancel_events := rest\<rparr>
           in if a < length (animations w1) then oncancel (animations w1 ! a) w1 else w1))"

definition frame :: "world \<Rightarrow> world" where
  "frame w = foldl (\<lambda>w (e, instant). expand e instant w) (w\<lparr>frame_requests := []\<rparr>) (frame_requests w)"

definition tick :: "nat \<Rightarrow> nat \<Rightarrow> world \<Rightarrow> world" where
  "tick a h w =
     (if a < length (animations w) \<and> playState (animations w ! a) = Running
      then w\<lparr>animations := (animations w)[a := (animations w ! a)\<lparr>current := h\<rparr>]\<rparr>
      else w)"

text \<open>
  The page's history is a list of events: what scripts and the user do (construct a
  \<open>Details\<close>, click a summary, call \<open>el.expand\<close> or \<open>el.shrink\<close>) and what the host does
  (a timeout fires, an animation frame, a running animation finishes or advances, a
  queued finish or cancel event is dispatched).
\<close>

datatype action =
    Construct elem
  | Timeout
  | Click elem
  | CallExpand elem bool
  | CallShrink elem bool
  | Frame
  | Finish nat
  | FinishEvent
  | CancelEvent
  | Tick nat nat

fun step :: "world \<Rightarrow> action \<Rightarrow> world" where
  "step w (Construct e) = (if instances w e = None then construct e w else w)"
| "step w Timeout = (case timeouts w of [] \<Rightarrow> w | e # rest \<Rightarrow> capture_siblings e (w\<lparr>timeouts := rest\<rparr>))"
| "step w (Click e) = onClick e w"
| "step w (CallExpand e instant) = open_section e instant w"
| "step w (CallShrink e instant) = shrink e instant w"
| "step w Frame = frame w"
| "step w (Finish a) = finish a w"
| "step w FinishEvent = dispatch_finish w"
| "step w CancelEvent = dispatch_cancel w"
| "step w (Tick a h) = tick a h w"

definition run :: "action list \<Rightarrow> world \<Rightarrow> world" where
  "run acts w = foldl step w acts"


text \<open>A page as loaded: some elements in a tree, no \<open>Details\<close> object, nothing animated or pending.\<close>

definition initial_world :: "(elem \<Rightarrow> element) \<Rightarrow> (elem \<Rightarrow> elem option) \<Rightarrow> (elem \<Rightarrow> elem list) \<Rightarrow> world" where
  "initial_world els par chs =
     \<lparr>elements = els, dom_parent = par, dom_children = chs, instances = (\<lambda>e. None),
      animations = [], frame_requests = [], timeouts = [], finish_events = [], cancel_events = []\<rparr>"

text \<open>The animations in flight on an element, and a page at rest: no frame callback or
  finish event is pending and no animation runs.\<close>

definition in_flight :: "world \<Rightarrow> elem \<Rightarrow> nat list" where
  "in_flight w e =
     filter (\<lambda>a. a_target (animations w ! a) = e \<and> playState (animations w ! a) = Running)
       [0..<length (animations w)]"

definition settled :: "world \<Rightarrow> bool" where
  "settled w = (frame_requests w = [] \<and> finish_events w = []
                \<and> list_all (\<lambda>a. playState a \<noteq> Running) (animations w))"

definition open_sections :: "world \<Rightarrow> elem list \<Rightarrow> elem list" where
  "open_sections w es = filter (\<lambda>e. instances w e \<noteq> None \<and> el_open (elements w e)) es"

text \<open>
  What holds of every page the events can produce: the animation a \<open>Details\<close> object holds
  was created on its own element, and no section is among its own siblings.
\<close>

definition wf :: "world \<Rightarrow> bool" where
  "wf w =
     ((\<forall>e d a. instances w e = Some d \<and> animation d = Some a \<longrightarrow>
            a < length (animations w) \<and> a_target (animations w ! a) = e)
      \<and> (\<forall>e d. instances w e = Some d \<longrightarrow> e \<notin> set (siblings d)))"

text \<open>The animation that \<open>shrink\<close> or \<open>expand\<close> creates.\<close>

definition new_animation :: "elem \<Rightarrow> nat \<Rightarrow> nat \<Rightarrow> bool \<Rightarrow> transition \<Rightarrow> animation_obj" where
  "new_animation e startH endH instant h =
     \<lparr>a_target = e, keyframes = (Px startH, Px endH), duration = (if instant then 0 else 300),
      easing = ''ease-in-out'', playState = (if instant then Finished else Running),
      handlers = h, current = startH\<rparr>"

text \<open>A page for the examples: \<open>details\<close> elements with a summary 40 high and a content 160 high, none of them in a tree.\<close>

definition ex_details :: element where
  "ex_details = \<lparr>tagName = ''DETAILS'', el_open = False, classList = {''accordion''},
                  style_height = None, style_overflow = [], summary_offsetHeight = 40,
                  content_offsetHeight = 160\<rparr>"

definition ex_page :: world where
  "ex_page = initial_world (\<lambda>e. ex_details) (\<lambda>e. None) (\<lambda>e. [])"

text \<open>A section that was opened and is now closing, and a section that was clicked and is opening.\<close>

definition ex_closing :: world where
  "ex_closing = run [Construct 0, CallExpand 0 False, Frame, Finish 0, CallShrink 0 False] ex_page"

definition ex_opening :: world where
  "ex_opening = run [Construct 0, Click 0, Frame] ex_page"

text \<open>A page with one closed section at rest.\<close>

definition ex_closed :: world where
  "ex_closed = run [Construct 0] ex_page"

text \<open>
  A section opened with \<open>el.expand(true)\<close> and clicked before the next frame; in that frame
  the host dispatches the finish and the cancel event of the instant animation. Then the
  section is clicked again.
\<close>

definition ex_stale :: world where
  "ex_stale = run [Construct 0, CallExpand 0 True, Frame, Click 0, FinishEvent, CancelEvent] ex_page"

text \<open>An open section on which \<open>el.shrink()\<close> was called twice; the cancel event of the
  first closing animation has been dispatched while the second one runs.\<close>

definition ex_reshrunk :: world where
  "ex_reshrunk = run [Construct 0, CallExpand 0 False, Frame, Finish 0, CallShrink 0 False,
                      CallShrink 0 False, CancelEvent] ex_page"

text \<open>
  A closing has been started on a section: its \<open>isClosing\<close> flag is set and the animation it
  holds was created by \<open>shrink\<close> and has not been cancelled.
\<close>

definition closing_started :: "world \<Rightarrow> elem \<Rightarrow> bool" where
  "closing_started w t =
     (case instances w t of
        None \<Rightarrow> False
      | Some dt \<Rightarrow>
          (case animation dt of
             None \<Rightarrow> False
           | Some a \<Rightarrow> isClosing dt \<and> a < length (animations w)
                       \<and> playState (animations w ! a) \<noteq> Idle
                       \<and> handlers (animations w ! a) = Shrinking
                       \<and> a_target (animations w ! a) = t))"

text \<open>
  The section \<open>t\<close> holds the animation \<open>a\<close>. No opening of \<open>t\<close> is under way that a
  \<open>shrink\<close> of \<open>t\<close> would not stop: no animation created by \<open>expand\<close> on \<open>t\<close> has its finish
  event queued, and one that runs is the animation \<open>t\<close> holds.
\<close>

definition holds :: "world \<Rightarrow> elem \<Rightarrow> nat \<Rightarrow> bool" where
  "holds w t a = (case instances w t of None \<Rightarrow> False | Some dt \<Rightarrow> animation dt = Some a)"

definition no_stray_opening :: "world \<Rightarrow> elem \<Rightarrow> bool" where
  "no_stray_opening w t =
     list_all (\<lambda>a. a_target (animations w ! a) = t \<and> handlers (animations w ! a) = Expanding \<longrightarrow>
                    \<not> List.member (finish_events w) a
                    \<and> (playState (animations w ! a) = Running \<longrightarrow> holds w t a))
       [0..<length (animations w)]"





text \<open>A page of three sections under one parent; section 1 carries the singleton marker.\<close>

definition ex_group :: world where
  "ex_group =
     initial_world (\<lambda>e. if e = 1 then ex_details\<lparr>classList := {''accordion'', ''singleton''}\<rparr> else ex_details)
       (\<lambda>e. if e = 1 \<or> e = 2 \<or> e = 3 then Some 0 else None)
       (\<lambda>e. if e = 0 then [1, 2, 3] else [])"





text \<open>
  Section 2 was closed without a transition and activated before the finish event of that
  closing was dispatched: the event then released the opening animation that the activation had
  started, which runs on, held by no section.
\<close>

definition ex_group_stray :: world where
  "ex_group_stray = run [Construct 1, Construct 2, Construct 3, Timeout, Timeout, Timeout,
                   CallExpand 3 False, Frame, Finish 0,
                   CallShrink 2 True, Click 2, Frame, FinishEvent, CancelEvent] ex_group"

section \<open>Properties of the custom-property helpers\<close>

lemma foldl_record_value_OutStr:
  "foldl (\<lambda>result property. record_value result property (f property)) (OutStr s) ps = OutStr s"
  by (induction ps) (simp_all add: record_value_def)

lemma foldl_setProperty:
  "foldl (\<lambda>acc (property, v). setProperty acc (custom_name property) v) st m
     = st @ map (\<lambda>(property, v). (custom_name property, v)) m"
  by (induction m arbitrary: st) (auto simp: setProperty_def)

text \<open>
  Claim C9. \<open>setCustomProperty\<close> throws exactly when it is called with a property name
  (a string) and no value. In every other call shape it returns normally, and a target
  that has a style object has received one \<open>setProperty\<close> call for each given property,
  in order, under the name normalised to a single leading \<open>--\<close>: the one named property
  with its value, or every entry of the property map.
\<close>

theorem setCustomProperty_throws_iff:
  "((\<exists>e. setCustomProperty tgt properties val = Inl e)
      = ((\<exists>name. properties = PropName name) \<and> val = None))
   \<and> setCustomProperty tgt (PropName name) None
       = Inl (Error ''Value must be defined when properties is a string'')
   \<and> setCustomProperty (tgt\<lparr>style := Some st\<rparr>) (PropName name) (Some v)
       = Inr (tgt\<lparr>style := Some (st @ [(custom_name name, v)])\<rparr>)
   \<and> setCustomProperty (tgt\<lparr>style := Some st\<rparr>) (PropMap m) val
       = Inr (tgt\<lparr>style := Some (st @ map (\<lambda>(property, v). (custom_name property, v)) m)\<rparr>)"
  by (cases properties; cases val; cases "style tgt")
     (simp_all add: setCustomProperty_def foldl_setProperty setProperty_def)

theorem setCustomProperty_throws_iff_witness:
  "setCustomProperty \<lparr>style = Some []\<rparr> (PropName ''nav-bar-height'') (None :: string option)
       = Inl (Error ''Value must be defined when properties is a string'')
   \<and> setCustomProperty \<lparr>style = Some []\<rparr> (PropName ''nav-bar-height'') (Some ''200px'')
       = Inr \<lparr>style = Some [(''--nav-bar-height'', ''200px'')]\<rparr>
   \<and> setCustomProperty \<lparr>style = Some []\<rparr> (PropMap [(''--a'', ''1px''), (''b'', ''2px'')]) None
       = Inr \<lparr>style = Some [(''--a'', ''1px''), (''--b'', ''2px'')]\<rparr>"
  using setCustomProperty_throws_iff [of "\<lparr>style = Some []\<rparr>" "PropName ''nav-bar-height''" "None :: string option"
          "''nav-bar-height''" "[]" "''200px''" "[(''--a'', ''1px''), (''b'', ''2px'')]"]
  by (simp add: custom_name_def strip_dashes_def)

text \<open>
  Claim C10. Called with exactly one string property name (and any number of boolean
  flags), \<open>getCustomProperty\<close> returns the empty string, whatever the computed style of
  the target holds: the accumulator starts as the empty string and only an object
  accumulator records a looked-up value.
\<close>

theorem getCustomProperty_single_name_empty:
  "length (propertyNames_of properties) = 1
   \<Longrightarrow> getCustomProperty num computed properties = OutStr []"
  by (simp add: getCustomProperty_def Let_def foldl_record_value_OutStr)

theorem getCustomProperty_single_name_empty_witness:
  "length (propertyNames_of [PStr ''nav-bar-height'', PBool True]) = 1
   \<and> getCustomProperty \<lparr>unary_plus = (\<lambda>s. 0::int), parse_fixed4 = (\<lambda>s. 200)\<rparr>
        (\<lambda>name. if name = ''--nav-bar-height'' then ''200px'' else [])
        [PStr ''nav-bar-height'', PBool True] = OutStr []"
proof -
  have h: "length (propertyNames_of [PStr ''nav-bar-height'', PBool True]) = 1"
    by (simp add: propertyNames_of_def)
  show ?thesis
    using h getCustomProperty_single_name_empty [OF h] by simp
qed


section \<open>Properties of the mutation registry\<close>

lemma foldl_rel:
  assumes "\<And>s. R s s" and "\<And>a b c. R a b \<Longrightarrow> R b c \<Longrightarrow> R a c"
    and "\<And>s x. x \<in> set xs \<Longrightarrow> R s (f s x)"
  shows "R s (foldl f s xs)"
  using assms(3)
proof (induction xs arbitrary: s)
  case Nil
  show ?case by (simp add: assms(1))
next
  case (Cons x xs)
  have "R s (f s x)" using Cons.prems by simp
  moreover have "R (f s x) (foldl f (f s x) xs)" using Cons.IH Cons.prems by simp
  ultimately show ?case using assms(2) by simp
qed

lemma update_info_fields [simp]:
  "length (infos (update_info i f s)) = length (infos s)"
  "natives (update_info i f s) = natives s"
  "observers (update_info i f s) = observers s"
  "events (update_info i f s) = events s"
  by (simp_all add: update_info_def)

lemma update_info_nth:
  "j < length (infos s) \<Longrightarrow> infos (update_info i f s) ! j = (if j = i then f (infos s ! j) else infos s ! j)"
  by (simp add: update_info_def)

lemma triggerEvent_fields [simp]:
  "infos (triggerEvent r t n s) = infos s"
  "natives (triggerEvent r t n s) = natives s"
  "observers (triggerEvent r t n s) = observers s"
  "events (triggerEvent r t n s) = events s @ [\<lparr>ev_target = r, ev_type = t, ev_element = n\<rparr>]"
  by (simp_all add: triggerEvent_def)

lemma disconnect_fields [simp]:
  "infos (disconnect ob s) = infos s"
  "length (natives (disconnect ob s)) = length (natives s)"
  "observers (disconnect ob s) = observers s"
  "events (disconnect ob s) = events s"
  by (simp_all add: disconnect_def)

lemma disconnect_watching:
  "k < length (natives s) \<Longrightarrow>
   watching (natives (disconnect ob s) ! k) = (if k = ob then None else watching (natives s ! k))"
  by (simp add: disconnect_def)

lemma disconnect_env:
  "k < length (natives s) \<Longrightarrow> env (natives (disconnect ob s) ! k) = env (natives s ! k)"
  by (simp add: disconnect_def nth_list_update)

lemma disconnect_observer_of_fields [simp]:
  "infos (disconnect_observer_of i s) = infos s"
  "length (natives (disconnect_observer_of i s)) = length (natives s)"
  "observers (disconnect_observer_of i s) = observers s"
  "events (disconnect_observer_of i s) = events s"
  by (simp_all add: disconnect_observer_of_def)

lemma has_confirmed_cong:
  "infos s' = infos s \<Longrightarrow> has_confirmed s' i n = has_confirmed s i n"
  by (simp add: has_confirmed_def)

lemma deleted_count_cong:
  "events s' = events s \<Longrightarrow> deleted_count s' n = deleted_count s n"
  by (simp add: deleted_count_def)

lemma confirm_has:
  "has_confirmed (confirm c el s) i n
     = (has_confirmed s i n \<or> (n = el \<and> i = c_observerInfo c \<and> i < length (infos s)))"
  by (auto simp: confirm_def has_confirmed_def update_info_nth split: if_splits)

lemma confirm_deleted_count [simp]: "deleted_count (confirm c el s) n = deleted_count s n"
  by (simp add: confirm_def deleted_count_def)

lemma confirm_fields [simp]:
  "length (infos (confirm c el s)) = length (infos s)"
  "natives (confirm c el s) = natives s"
  "observers (confirm c el s) = observers s"
  by (simp_all add: confirm_def)

lemma confirm_observer:
  "j < length (infos s) \<Longrightarrow> observer (infos (confirm c el s) ! j) = observer (infos s ! j)"
  by (simp add: confirm_def update_info_nth)

lemma foldl_confirm_other:
  "el \<notin> set els \<Longrightarrow>
   has_confirmed (foldl (\<lambda>s e. confirm c e s) s els) i el = has_confirmed s i el
   \<and> deleted_count (foldl (\<lambda>s e. confirm c e s) s els) el = deleted_count s el"
  by (induction els arbitrary: s) (auto simp: confirm_has)

lemma on_added_other:
  "\<not> List.member (c_callback c n) el \<Longrightarrow>
   has_confirmed (on_added c s n) i el = has_confirmed s i el
   \<and> deleted_count (on_added c s n) el = deleted_count s el"
  by (simp add: on_added_def foldl_confirm_other)

lemma foldl_on_added_other:
  "\<not> list_ex (\<lambda>n. List.member (c_callback c n) el) ns \<Longrightarrow>
   has_confirmed (foldl (on_added c) s ns) i el = has_confirmed s i el
   \<and> deleted_count (foldl (on_added c) s ns) el = deleted_count s el"
  by (induction ns arbitrary: s) (simp_all add: on_added_other)

lemma on_removed_has:
  "has_confirmed (on_removed c s n) (c_observerInfo c) el
     = (has_confirmed s (c_observerInfo c) el \<and> \<not> (n = el \<and> is_element n))"
  by (auto simp: on_removed_def Let_def has_confirmed_def update_info_nth
                 triggerEvent_def)

lemma on_removed_count:
  "deleted_count (on_removed c s n) el
     = deleted_count s el + (if n = el \<and> is_element n \<and> has_confirmed s (c_observerInfo c) el then 1 else 0)"
  by (auto simp: on_removed_def Let_def deleted_count_def)

lemma foldl_on_removed_effect:
  "has_confirmed (foldl (on_removed c) s ns) (c_observerInfo c) el
     = (has_confirmed s (c_observerInfo c) el \<and> \<not> (el \<in> set ns \<and> is_element el))
   \<and> deleted_count (foldl (on_removed c) s ns) el
     = deleted_count s el + (if el \<in> set ns \<and> is_element el \<and> has_confirmed s (c_observerInfo c) el then 1 else 0)"
proof (induction ns arbitrary: s)
  case Nil
  show ?case by simp
next
  case (Cons n ns)
  show ?case
    by (auto simp: Cons.IH on_removed_has on_removed_count)
qed

lemma on_mutation_effect:
  assumes "\<not> list_ex (\<lambda>n. List.member (c_callback c n) el) (addedNodes m)"
  shows "has_confirmed (on_mutation c s m) (c_observerInfo c) el
     = (has_confirmed s (c_observerInfo c) el
        \<and> \<not> (mtype m = childList \<and> List.member (removedNodes m) el \<and> is_element el))
   \<and> deleted_count (on_mutation c s m) el
     = deleted_count s el
       + (if mtype m = childList \<and> List.member (removedNodes m) el \<and> is_element el
             \<and> has_confirmed s (c_observerInfo c) el then 1 else 0)"
  using foldl_on_added_other [OF assms, of s "c_observerInfo c"]
  by (simp add: on_mutation_def foldl_on_removed_effect)

lemma observer_callback_effect:
  assumes "\<not> callback_confirms c el ms"
  shows "has_confirmed (observer_callback c ms s) (c_observerInfo c) el
     = (has_confirmed s (c_observerInfo c) el \<and> \<not> (removes el ms \<and> is_element el))
   \<and> deleted_count (observer_callback c ms s) el
     = deleted_count s el
       + (if removes el ms \<and> is_element el \<and> has_confirmed s (c_observerInfo c) el then 1 else 0)"
  using assms
proof (induction ms arbitrary: s)
  case Nil
  show ?case by (simp add: observer_callback_def removes_def)
next
  case (Cons m ms)
  have a: "\<not> list_ex (\<lambda>n. List.member (c_callback c n) el) (addedNodes m)"
    and b: "\<not> callback_confirms c el ms"
    using Cons.prems by (simp_all add: callback_confirms_def)
  have step: "observer_callback c (m # ms) s = observer_callback c ms (on_mutation c s m)"
    by (simp add: observer_callback_def)
  show ?case
    by (auto simp: step Cons.IH [OF b] on_mutation_effect [OF a] removes_def)
qed

lemma teardown_rel_refl: "teardown_rel i ob el s s"
  by (simp add: teardown_rel_def)

lemma teardown_rel_trans:
  "teardown_rel i ob el a b \<Longrightarrow> teardown_rel i ob el b c \<Longrightarrow> teardown_rel i ob el a c"
  unfolding teardown_rel_def by metis

lemma teardown_rel_confirm: "teardown_rel i ob el s (confirm c e s)"
  by (simp add: teardown_rel_def confirm_observer)

lemma teardown_rel_on_added: "teardown_rel i ob el s (on_added c s n)"
proof -
  have "teardown_rel i ob el s (foldl (\<lambda>s e. confirm c e s) s (c_callback c n))"
    by (rule foldl_rel [where R = "teardown_rel i ob el"])
       (simp_all add: teardown_rel_refl teardown_rel_confirm, erule (1) teardown_rel_trans)
  then show ?thesis by (simp add: on_added_def teardown_rel_refl)
qed

lemma teardown_rel_on_removed:
  "c_autoUnobserve c \<Longrightarrow> teardown_rel (c_observerInfo c) ob el s (on_removed c s n)"
  by (auto simp: teardown_rel_def on_removed_def Let_def update_info_nth deleted_count_def
                 disconnect_observer_of_def disconnect_watching has_confirmed_def)

lemma teardown_rel_on_mutation:
  assumes "c_autoUnobserve c"
  shows "teardown_rel (c_observerInfo c) ob el s (on_mutation c s m)"
proof -
  have a: "teardown_rel (c_observerInfo c) ob el s (foldl (on_added c) s (addedNodes m))"
    by (rule foldl_rel [where R = "teardown_rel (c_observerInfo c) ob el"])
       (simp_all add: teardown_rel_refl teardown_rel_on_added, erule (1) teardown_rel_trans)
  have b: "teardown_rel (c_observerInfo c) ob el t (foldl (on_removed c) t (removedNodes m))" for t
    by (rule foldl_rel [where R = "teardown_rel (c_observerInfo c) ob el"])
       (simp_all add: teardown_rel_refl teardown_rel_on_removed [OF assms], erule (1) teardown_rel_trans)
  show ?thesis
    using teardown_rel_trans [OF a b] by (simp add: on_mutation_def teardown_rel_refl)
qed

lemma teardown_rel_observer_callback:
  assumes "c_autoUnobserve c"
  shows "teardown_rel (c_observerInfo c) ob el s (observer_callback c ms s)"
  unfolding observer_callback_def
  by (rule foldl_rel [where R = "teardown_rel (c_observerInfo c) ob el"])
     (simp_all add: teardown_rel_refl teardown_rel_on_mutation [OF assms], erule (1) teardown_rel_trans)

text \<open>
  Claim C1. Two calls of \<open>MutationObserverHelper\<close> for the same root \<open>R\<close> (given as
  \<open>observeElement\<close>, or by default the document element) create one native
  \<open>MutationObserver\<close> between them: the second call finds the entry the first one left in the
  registry, returns a handle on the same \<open>ObserverInfo\<close> and leaves the registry, and with it
  the store of native observers, as it was. Over both calls one observer watching \<open>R\<close> is
  created when \<open>R\<close> had no entry before, and none when it had one.
\<close>

theorem subscribe_twice_one_watcher:
  assumes "root_of o1 = R" and "root_of o2 = R"
    and "MutationObserverHelper cb1 o1 s = (h1, s1)"
    and "MutationObserverHelper cb2 o2 s1 = (h2, s2)"
  shows "s2 = s1 \<and> h2 = h1
         \<and> length (natives s2) = length (natives s) + (if observers s R = None then 1 else 0)
         \<and> watchers s2 R = watchers s R + (if observers s R = None then 1 else 0)"
  using assms
  by (auto simp: MutationObserverHelper_def Let_def watchers_def split: option.splits)



lemma foldl_confirm_length_infos:
  "length (infos (foldl (\<lambda>s e. confirm c e s) s els)) = length (infos s)"
  by (induction els arbitrary: s) simp_all

lemma on_added_length_infos: "length (infos (on_added c s n)) = length (infos s)"
  by (simp add: on_added_def foldl_confirm_length_infos)

lemma on_removed_length_infos: "length (infos (on_removed c s n)) = length (infos s)"
  by (simp add: on_removed_def Let_def)

lemma on_mutation_length_infos: "length (infos (on_mutation c s m)) = length (infos s)"
proof -
  have a: "length (infos (foldl (on_added c) t ns)) = length (infos t)" for t ns
    by (induction ns arbitrary: t) (simp_all add: on_added_length_infos)
  have b: "length (infos (foldl (on_removed c) t ns)) = length (infos t)" for t ns
    by (induction ns arbitrary: t) (simp_all add: on_removed_length_infos)
  show ?thesis by (simp add: on_mutation_def a b)
qed

lemma observer_callback_length_infos:
  "length (infos (observer_callback c ms s)) = length (infos s)"
  unfolding observer_callback_def
  by (induction ms arbitrary: s) (simp_all add: on_mutation_length_infos)

lemma foldl_confirm_natives:
  "natives (foldl (\<lambda>s e. confirm c e s) s els) = natives s"
  by (induction els arbitrary: s) simp_all

lemma on_added_natives: "natives (on_added c s n) = natives s"
  by (simp add: on_added_def foldl_confirm_natives)

lemma on_removed_natives: "\<not> c_autoUnobserve c \<Longrightarrow> natives (on_removed c s n) = natives s"
  by (simp add: on_removed_def Let_def)

lemma on_mutation_natives: "\<not> c_autoUnobserve c \<Longrightarrow> natives (on_mutation c s m) = natives s"
proof -
  assume auto: "\<not> c_autoUnobserve c"
  have a: "natives (foldl (on_added c) t ns) = natives t" for t ns
    by (induction ns arbitrary: t) (simp_all add: on_added_natives)
  have b: "natives (foldl (on_removed c) t ns) = natives t" for t ns
    by (induction ns arbitrary: t) (simp_all add: on_removed_natives [OF auto])
  show ?thesis by (simp add: on_mutation_def a b)
qed

lemma observer_callback_natives:
  "\<not> c_autoUnobserve c \<Longrightarrow> natives (observer_callback c ms s) = natives s"
  unfolding observer_callback_def
  by (induction ms arbitrary: s) (simp_all add: on_mutation_natives)

text \<open>
  Claim C2. Let the element \<open>el\<close> be confirmed (state \<open>s1\<close>), and let the observer callback
  then receive a batch \<open>ms\<close> that holds a \<open>childList\<close> record removing \<open>el\<close> and during which
  the subscriber's callback does not confirm \<open>el\<close> again. The batch dispatches exactly one
  \<open>deleted\<close> event for \<open>el\<close> and leaves \<open>el\<close> out of the confirmed set (state \<open>s2\<close>).
  Confirming \<open>el\<close> again (state \<open>s3\<close>) re-arms it: a later such batch \<open>ms'\<close> dispatches one
  more \<open>deleted\<close> event for \<open>el\<close>. Without \<open>autoUnobserve\<close> the native observer stays
  connected throughout, so both batches are the ones the host delivers.
\<close>

theorem removal_reports_once_and_rearms:
  assumes "c_observerInfo c < length (infos s0)" and "is_element el"
    and "removes el ms" and "\<not> callback_confirms c el ms"
    and "removes el ms'" and "\<not> callback_confirms c el ms'"
    and "s1 = confirm c el s0"
    and "s2 = observer_callback c ms s1"
    and "s3 = confirm c el s2"
    and "s4 = observer_callback c ms' s3"
  shows "has_confirmed s1 (c_observerInfo c) el
         \<and> deleted_count s2 el = deleted_count s1 el + 1
         \<and> \<not> has_confirmed s2 (c_observerInfo c) el
         \<and> has_confirmed s3 (c_observerInfo c) el
         \<and> deleted_count s4 el = deleted_count s3 el + 1
         \<and> \<not> has_confirmed s4 (c_observerInfo c) el
         \<and> (\<not> c_autoUnobserve c \<and> ob < length (natives s0) \<and> watching (natives s0 ! ob) \<noteq> None
              \<and> env (natives s0 ! ob) = c
              \<longrightarrow> deliver ob ms s1 = s2 \<and> deliver ob ms' s3 = s4)"
proof -
  have h1: "has_confirmed s1 (c_observerInfo c) el"
    using assms(1,7) by (simp add: confirm_has)
  have l2: "c_observerInfo c < length (infos s2)"
    using assms(1,7,8) by (simp add: observer_callback_length_infos)
  have h3: "has_confirmed s3 (c_observerInfo c) el"
    using l2 assms(9) by (simp add: confirm_has)
  have n: "natives s1 = natives s0 \<and> natives s3 = natives s0" if "\<not> c_autoUnobserve c"
    using that by (simp add: assms(7-9) observer_callback_natives)
  have d: "deliver ob ms s1 = s2 \<and> deliver ob ms' s3 = s4"
    if "\<not> c_autoUnobserve c" "ob < length (natives s0)" "watching (natives s0 ! ob) \<noteq> None"
       "env (natives s0 ! ob) = c"
    using that n [OF that(1)] by (simp add: deliver_def assms(8,10))
  show ?thesis
    using h1 h3 assms(2,3,5) d
      observer_callback_effect [OF assms(4), of s1]
      observer_callback_effect [OF assms(6), of s3]
    by (simp add: assms(8,10))
qed

lemmas registry_eval =
  MutationObserverHelper_def root_of_def empty_registry_def unobserve_def
  disconnect_observer_of_def disconnect_def watchers_def deliver_def Let_def observer_callback_def
  on_mutation_def on_added_def on_removed_def confirm_def triggerEvent_def update_info_def
  has_confirmed_def deleted_count_def removes_def callback_confirms_def
  ex_closure_def ex_registry_def ex_removal_def ex_addition_def ex_root_def

theorem subscribe_twice_one_watcher_witness:
  "MutationObserverHelper (\<lambda>n. []) \<lparr>observeElement = Some ex_root, autoUnobserve = Some True\<rparr> (snd ex_first)
     = (fst ex_first, snd ex_first)
   \<and> length (natives (snd ex_first)) = 1 \<and> watchers (snd ex_first) ex_root = 1"
proof -
  have a: "root_of \<lparr>observeElement = Some ex_root, autoUnobserve = None\<rparr> = ex_root"
    and b: "root_of \<lparr>observeElement = Some ex_root, autoUnobserve = Some True\<rparr> = ex_root"
    by (simp_all add: root_of_def)
  have c: "MutationObserverHelper (\<lambda>n. [n]) \<lparr>observeElement = Some ex_root, autoUnobserve = None\<rparr> empty_registry
             = (fst ex_first, snd ex_first)"
    by (simp add: ex_first_def)
  obtain h2 s2 where d: "MutationObserverHelper (\<lambda>n. []) \<lparr>observeElement = Some ex_root, autoUnobserve = Some True\<rparr> (snd ex_first) = (h2, s2)"
    by (cases "MutationObserverHelper (\<lambda>n. []) \<lparr>observeElement = Some ex_root, autoUnobserve = Some True\<rparr> (snd ex_first)") 
  show ?thesis
    using subscribe_twice_one_watcher [OF a b c d] d
    by (auto simp: empty_registry_def watchers_def)
qed


theorem removal_reports_once_and_rearms_witness:
  "deleted_count (observer_callback (ex_closure False) (ex_removal (HTMLElement 7))
       (confirm (ex_closure False) (HTMLElement 7) (ex_registry False))) (HTMLElement 7) = 1
   \<and> deleted_count (observer_callback (ex_closure False) (ex_removal (HTMLElement 7))
        (confirm (ex_closure False) (HTMLElement 7)
          (observer_callback (ex_closure False) (ex_removal (HTMLElement 7))
            (confirm (ex_closure False) (HTMLElement 7) (ex_registry False))))) (HTMLElement 7) = 2
   \<and> deliver 0 (ex_removal (HTMLElement 7)) (confirm (ex_closure False) (HTMLElement 7) (ex_registry False))
       = observer_callback (ex_closure False) (ex_removal (HTMLElement 7))
           (confirm (ex_closure False) (HTMLElement 7) (ex_registry False))"
proof -
  have a: "c_observerInfo (ex_closure False) < length (infos (ex_registry False))"
    and b: "is_element (HTMLElement 7)"
    and c: "removes (HTMLElement 7) (ex_removal (HTMLElement 7))"
    and d: "\<not> callback_confirms (ex_closure False) (HTMLElement 7) (ex_removal (HTMLElement 7))"
    and e: "deleted_count (confirm (ex_closure False) (HTMLElement 7) (ex_registry False)) (HTMLElement 7) = 0"
    and f: "\<not> c_autoUnobserve (ex_closure False)" "0 < length (natives (ex_registry False))"
      "watching (natives (ex_registry False) ! 0) \<noteq> None"
      "env (natives (ex_registry False) ! 0) = ex_closure False"
    by (simp_all add: registry_eval)
  show ?thesis
    using removal_reports_once_and_rearms [OF a b c d c d refl refl refl refl, of 0] e f
    by simp
qed

text \<open>
  Claim C7. With \<open>autoUnobserve\<close> set, when the host delivers to the connected native observer
  of a root a batch that removes a confirmed element \<open>el\<close> (and in which \<open>el\<close> is not
  confirmed again), exactly one \<open>deleted\<close> event is dispatched for \<open>el\<close>, \<open>el\<close> leaves the
  confirmed set, and the native observer of the root is disconnected as a whole: no later
  batch \<open>ms'\<close>, about whatever element, is delivered any more.
\<close>

theorem autoUnobserve_global_teardown:
  assumes "ob < length (natives s)" and "watching (natives s ! ob) \<noteq> None"
    and "env (natives s ! ob) = c" and "c_autoUnobserve c"
    and "c_observerInfo c < length (infos s)" and "observer (infos s ! c_observerInfo c) = ob"
    and "is_element el" and "has_confirmed s (c_observerInfo c) el"
    and "removes el ms" and "\<not> callback_confirms c el ms"
  shows "deleted_count (deliver ob ms s) el = deleted_count s el + 1
         \<and> \<not> has_confirmed (deliver ob ms s) (c_observerInfo c) el
         \<and> watching (natives (deliver ob ms s) ! ob) = None
         \<and> deliver ob ms' (deliver ob ms s) = deliver ob ms s"
proof -
  have d: "deliver ob ms s = observer_callback c ms s"
    using assms(1,2,3) by (simp add: deliver_def)
  have e: "deleted_count (observer_callback c ms s) el = deleted_count s el + 1"
    and f: "\<not> has_confirmed (observer_callback c ms s) (c_observerInfo c) el"
    using observer_callback_effect [OF assms(10), of s] assms(7,8,9) by simp_all
  have g: "watching (natives (observer_callback c ms s) ! ob) = None"
    using teardown_rel_observer_callback [OF assms(4), of ob el s ms] assms(1,5,6) e
    by (simp add: teardown_rel_def)
  show ?thesis
    using e f g by (simp add: d) (simp add: deliver_def)
qed

theorem autoUnobserve_global_teardown_witness:
  "has_confirmed ex_confirmed 0 (HTMLElement 8)
   \<and> deleted_count (deliver 0 (ex_removal (HTMLElement 7)) ex_confirmed) (HTMLElement 7) = 1
   \<and> watching (natives (deliver 0 (ex_removal (HTMLElement 7)) ex_confirmed) ! 0) = None
   \<and> deliver 0 (ex_removal (HTMLElement 8)) (deliver 0 (ex_removal (HTMLElement 7)) ex_confirmed)
       = deliver 0 (ex_removal (HTMLElement 7)) ex_confirmed"
proof -
  have v: "ex_confirmed = \<lparr>observers = [ex_root \<mapsto> 0],
             infos = [\<lparr>confirmedElements = {HTMLElement 7, HTMLElement 8}, observer = 0\<rparr>],
             natives = [\<lparr>watching = Some ex_root, env = ex_closure True\<rparr>],
             events = [\<lparr>ev_target = ex_root, ev_type = Added, ev_element = HTMLElement 7\<rparr>,
                       \<lparr>ev_target = ex_root, ev_type = Added, ev_element = HTMLElement 8\<rparr>]\<rparr>"
    by (simp add: ex_confirmed_def registry_eval insert_commute)
  have a: "0 < length (natives ex_confirmed)" and b: "watching (natives ex_confirmed ! 0) \<noteq> None"
    and c: "env (natives ex_confirmed ! 0) = ex_closure True" and d: "c_autoUnobserve (ex_closure True)"
    and e: "c_observerInfo (ex_closure True) < length (infos ex_confirmed)"
    and f: "observer (infos ex_confirmed ! c_observerInfo (ex_closure True)) = 0"
    and g: "is_element (HTMLElement 7)"
    and h: "has_confirmed ex_confirmed (c_observerInfo (ex_closure True)) (HTMLElement 7)"
    and i: "removes (HTMLElement 7) (ex_removal (HTMLElement 7))"
    and j: "\<not> callback_confirms (ex_closure True) (HTMLElement 7) (ex_removal (HTMLElement 7))"
    and k: "has_confirmed ex_confirmed 0 (HTMLElement 8)"
    and l: "deleted_count ex_confirmed (HTMLElement 7) = 0"
    unfolding v by (simp_all add: ex_closure_def has_confirmed_def removes_def ex_removal_def
                       callback_confirms_def deleted_count_def)
  show ?thesis
    using autoUnobserve_global_teardown [OF a b c d e f g h i j, of "ex_removal (HTMLElement 8)"] k l
    by simp
qed


section \<open>Properties of the collapsible section\<close>

lemma wf_initial: "wf (initial_world els par chs)"
  by (simp add: wf_def initial_world_def)

lemma wf_held:
  "wf w \<Longrightarrow> instances w e = Some d \<Longrightarrow> animation d = Some a \<Longrightarrow>
   a < length (animations w) \<and> a_target (animations w ! a) = e"
  unfolding wf_def by blast

lemma wf_siblings: "wf w \<Longrightarrow> instances w x = Some d \<Longrightarrow> x \<notin> set (siblings d)"
  unfolding wf_def by blast

lemma upd_instance_fields [simp]:
  "elements (upd_instance e f w) = elements w"
  "animations (upd_instance e f w) = animations w"
  "frame_requests (upd_instance e f w) = frame_requests w"
  "finish_events (upd_instance e f w) = finish_events w"
  "cancel_events (upd_instance e f w) = cancel_events w"
  "timeouts (upd_instance e f w) = timeouts w"
  "dom_parent (upd_instance e f w) = dom_parent w"
  "dom_children (upd_instance e f w) = dom_children w"
  by (simp_all add: upd_instance_def split: option.splits)

lemma upd_instance_instances:
  "instances (upd_instance e f w) x = (if x = e then map_option f (instances w e) else instances w x)"
  by (simp add: upd_instance_def split: option.splits)

lemma upd_element_fields [simp]:
  "instances (upd_element e f w) = instances w"
  "animations (upd_element e f w) = animations w"
  "frame_requests (upd_element e f w) = frame_requests w"
  "finish_events (upd_element e f w) = finish_events w"
  "cancel_events (upd_element e f w) = cancel_events w"
  "timeouts (upd_element e f w) = timeouts w"
  "dom_parent (upd_element e f w) = dom_parent w"
  "dom_children (upd_element e f w) = dom_children w"
  "elements (upd_element e f w) x = (if x = e then f (elements w e) else elements w x)"
  by (simp_all add: upd_element_def)

lemma cancel_fields [simp]:
  "elements (cancel a w) = elements w"
  "instances (cancel a w) = instances w"
  "frame_requests (cancel a w) = frame_requests w"
  "finish_events (cancel a w) = finish_events w"
  "timeouts (cancel a w) = timeouts w"
  "dom_parent (cancel a w) = dom_parent w"
  "dom_children (cancel a w) = dom_children w"
  "length (animations (cancel a w)) = length (animations w)"
  by (simp_all add: cancel_def)

lemma cancel_nth:
  "k < length (animations w) \<Longrightarrow>
   animations (cancel a w) ! k
     = (if k = a then (animations w ! k)\<lparr>playState := Idle\<rparr> else animations w ! k)"
  by (simp add: cancel_def nth_list_update)

lemma cancel_current_fields [simp]:
  "elements (cancel_current e w) = elements w"
  "instances (cancel_current e w) = instances w"
  "frame_requests (cancel_current e w) = frame_requests w"
  "finish_events (cancel_current e w) = finish_events w"
  "timeouts (cancel_current e w) = timeouts w"
  "dom_parent (cancel_current e w) = dom_parent w"
  "dom_children (cancel_current e w) = dom_children w"
  "length (animations (cancel_current e w)) = length (animations w)"
  by (simp_all add: cancel_current_def split: option.splits)

lemma cancel_current_nth:
  "k < length (animations w) \<Longrightarrow>
   animations (cancel_current e w) ! k
     = (if (\<exists>d. instances w e = Some d \<and> animation d = Some k)
        then (animations w ! k)\<lparr>playState := Idle\<rparr> else animations w ! k)"
  by (auto simp: cancel_current_def cancel_nth split: option.splits)

lemma animate_fields [simp]:
  "elements (animate e s t dur h w) = elements w"
  "instances (animate e s t dur h w) = instances w"
  "frame_requests (animate e s t dur h w) = frame_requests w"
  "cancel_events (animate e s t dur h w) = cancel_events w"
  "timeouts (animate e s t dur h w) = timeouts w"
  "dom_parent (animate e s t dur h w) = dom_parent w"
  "dom_children (animate e s t dur h w) = dom_children w"
  "animations (animate e s t dur h w) = animations w @
          [\<lparr>a_target = e, keyframes = (s, t), duration = dur,
            easing = ''ease-in-out'', playState = (if dur = 0 then Finished else Running),
            handlers = h, current = (case s of Px n \<Rightarrow> n)\<rparr>]"
  "finish_events (animate e s t dur h w)
     = finish_events w @ (if dur = 0 then [length (animations w)] else [])"
  by (simp_all add: animate_def)

lemma offsetHeight_cong:
  "animations w' = animations w \<Longrightarrow> elements w' = elements w \<Longrightarrow> offsetHeight w' e = offsetHeight w e"
  by (simp add: offsetHeight_def running_on_def split: option.splits css_length.splits)

lemma offsetHeight_upd_instance [simp]: "offsetHeight (upd_instance e f w) x = offsetHeight w x"
  by (rule offsetHeight_cong) simp_all

lemma cancel_current_upd_instance_flags:
  "animations (cancel_current e (upd_instance e' (\<lambda>d. d\<lparr>isClosing := b\<rparr>) w)) = animations (cancel_current e w)"
  "animations (cancel_current e (upd_instance e' (\<lambda>d. d\<lparr>isExpanding := b\<rparr>) w)) = animations (cancel_current e w)"
  "cancel_events (cancel_current e (upd_instance e' (\<lambda>d. d\<lparr>isClosing := b\<rparr>) w)) = cancel_events (cancel_current e w)"
  "cancel_events (cancel_current e (upd_instance e' (\<lambda>d. d\<lparr>isExpanding := b\<rparr>) w)) = cancel_events (cancel_current e w)"
  by (simp_all add: cancel_current_def upd_instance_def cancel_def split: option.splits)

lemma shrink_no_instance: "instances w e = None \<Longrightarrow> shrink e i w = w"
  by (simp add: shrink_def)

lemma shrink_Some:
  "instances w e = Some d \<Longrightarrow>
   shrink e i w =
     upd_instance e (\<lambda>d. d\<lparr>animation := Some (length (animations w))\<rparr>)
       (animate e (Px (offsetHeight w e)) (Px (summary_offsetHeight (elements w e)))
          (if i then 0 else 300) Shrinking
          (cancel_current e (upd_instance e (\<lambda>d. d\<lparr>isClosing := True\<rparr>) w)))"
  by (simp add: shrink_def Let_def)

lemma shrink_fields [simp]:
  "elements (shrink e i w) = elements w"
  "frame_requests (shrink e i w) = frame_requests w"
  "timeouts (shrink e i w) = timeouts w"
  "dom_parent (shrink e i w) = dom_parent w"
  "dom_children (shrink e i w) = dom_children w"
  by (cases "instances w e"; simp add: shrink_no_instance shrink_Some)+

lemma shrink_instances:
  "instances (shrink e i w) x
     = (if x = e then map_option (\<lambda>d. d\<lparr>isClosing := True, animation := Some (length (animations w))\<rparr>) (instances w e)
        else instances w x)"
  by (cases "instances w e"; simp add: shrink_no_instance shrink_Some upd_instance_instances)

lemma shrink_animations:
  "instances w e = Some d \<Longrightarrow>
   animations (shrink e i w)
     = animations (cancel_current e w) @
         [new_animation e (offsetHeight w e) (summary_offsetHeight (elements w e)) i Shrinking]"
  by (simp add: shrink_Some cancel_current_upd_instance_flags new_animation_def)


lemma expand_no_instance: "instances w e = None \<Longrightarrow> expand e i w = w"
  by (simp add: expand_def)

lemma expand_Some:
  "instances w e = Some d \<Longrightarrow>
   expand e i w =
     upd_instance e (\<lambda>d. d\<lparr>animation := Some (length (animations w))\<rparr>)
       (animate e (Px (offsetHeight w e))
          (Px (summary_offsetHeight (elements w e) + content_offsetHeight (elements w e)))
          (if i then 0 else 300) Expanding
          (cancel_current e (upd_instance e (\<lambda>d. d\<lparr>isExpanding := True\<rparr>) w)))"
  by (simp add: expand_def Let_def)

lemma expand_fields [simp]:
  "elements (expand e i w) = elements w"
  "frame_requests (expand e i w) = frame_requests w"
  "timeouts (expand e i w) = timeouts w"
  "dom_parent (expand e i w) = dom_parent w"
  "dom_children (expand e i w) = dom_children w"
  by (cases "instances w e"; simp add: expand_no_instance expand_Some)+

lemma expand_instances:
  "instances (expand e i w) x
     = (if x = e then map_option (\<lambda>d. d\<lparr>isExpanding := True, animation := Some (length (animations w))\<rparr>) (instances w e)
        else instances w x)"
  by (cases "instances w e"; simp add: expand_no_instance expand_Some upd_instance_instances)

lemma expand_animations:
  "instances w e = Some d \<Longrightarrow>
   animations (expand e i w)
     = animations (cancel_current e w) @
         [new_animation e (offsetHeight w e)
            (summary_offsetHeight (elements w e) + content_offsetHeight (elements w e)) i Expanding]"
  by (simp add: expand_Some cancel_current_upd_instance_flags new_animation_def)

lemma expand_finish_events:
  "instances w e = Some d \<Longrightarrow>
   finish_events (expand e i w) = finish_events w @ (if i then [length (animations w)] else [])"
  by (simp add: expand_Some)

lemma new_animation_simps [simp]:
  "a_target (new_animation e s t i h) = e"
  "handlers (new_animation e s t i h) = h"
  "playState (new_animation e s t i h) = (if i then Finished else Running)"
  "keyframes (new_animation e s t i h) = (Px s, Px t)"
  "duration (new_animation e s t i h) = (if i then 0 else 300)"
  by (simp_all add: new_animation_def)

lemma onAnimationFinish_fields [simp]:
  "animations (onAnimationFinish e b w) = animations w"
  "frame_requests (onAnimationFinish e b w) = frame_requests w"
  "finish_events (onAnimationFinish e b w) = finish_events w"
  "cancel_events (onAnimationFinish e b w) = cancel_events w"
  "timeouts (onAnimationFinish e b w) = timeouts w"
  "dom_parent (onAnimationFinish e b w) = dom_parent w"
  "dom_children (onAnimationFinish e b w) = dom_children w"
  by (simp_all add: onAnimationFinish_def Let_def)


lemma onAnimationFinish_elements:
  "elements (onAnimationFinish e b w) x
     = (if x = e then (elements w e)\<lparr>el_open := b,
            classList := (if b then insert ''visible'' (classList (elements w e)) else classList (elements w e) - {''visible''}),
            style_height := None, style_overflow := []\<rparr>
        else elements w x)"
  by (simp add: onAnimationFinish_def Let_def)

lemma onfinish_eq: "onfinish x w = onAnimationFinish (a_target x) (handlers x = Expanding) w"
  by (cases "handlers x") (simp_all add: onfinish_def)

lemma mark_finished_fields [simp]:
  "elements (mark_finished a w) = elements w"
  "instances (mark_finished a w) = instances w"
  "frame_requests (mark_finished a w) = frame_requests w"
  "finish_events (mark_finished a w) = finish_events w"
  "cancel_events (mark_finished a w) = cancel_events w"
  "timeouts (mark_finished a w) = timeouts w"
  "dom_parent (mark_finished a w) = dom_parent w"
  "dom_children (mark_finished a w) = dom_children w"
  "length (animations (mark_finished a w)) = length (animations w)"
  by (simp_all add: mark_finished_def)

lemma mark_finished_nth:
  "k < length (animations w) \<Longrightarrow>
   animations (mark_finished a w) ! k
     = (if k = a then (animations w ! k)\<lparr>playState := Finished\<rparr> else animations w ! k)"
  by (simp add: mark_finished_def nth_list_update)



lemma wf_rel:
  assumes w: "wf w"
    and len: "length (animations w) \<le> length (animations w')"
    and tgt: "\<And>k. k < length (animations w) \<Longrightarrow> a_target (animations w' ! k) = a_target (animations w ! k)"
    and rel: "\<And>x d'. instances w' x = Some d' \<Longrightarrow>
                x \<notin> set (siblings d')
                \<and> (case animation d' of
                      None \<Rightarrow> True
                    | Some a \<Rightarrow> (\<exists>d. instances w x = Some d \<and> animation d = Some a)
                                \<or> (a < length (animations w') \<and> a_target (animations w' ! a) = x))"
  shows "wf w'"
proof -
  have p1: "a < length (animations w') \<and> a_target (animations w' ! a) = x"
    if h: "instances w' x = Some d'" "animation d' = Some a" for x d' a
  proof -
    from rel [OF h(1)] h(2)
    have "(\<exists>d. instances w x = Some d \<and> animation d = Some a)
           \<or> (a < length (animations w') \<and> a_target (animations w' ! a) = x)"
      by simp
    then show ?thesis
    proof
      assume "\<exists>d. instances w x = Some d \<and> animation d = Some a"
      then obtain d where "instances w x = Some d" "animation d = Some a" by blast
      then have a: "a < length (animations w)" "a_target (animations w ! a) = x"
        using wf_held [OF w] by blast+
      show ?thesis using a len tgt [OF a(1)] by simp
    qed simp
  qed
  have p2: "x \<notin> set (siblings d')" if "instances w' x = Some d'" for x d'
    using rel [OF that] by simp
  show ?thesis unfolding wf_def using p1 p2 by blast
qed

lemma cancel_current_target:
  "k < length (animations w) \<Longrightarrow>
   a_target (animations (cancel_current e w) ! k) = a_target (animations w ! k)"
  by (simp add: cancel_current_nth)

lemma cancel_current_handlers:
  "k < length (animations w) \<Longrightarrow>
   handlers (animations (cancel_current e w) ! k) = handlers (animations w ! k)"
  by (simp add: cancel_current_nth)

lemma wf_shrink:
  assumes "wf w"
  shows "wf (shrink e i w)"
proof (cases "instances w e")
  case None
  then show ?thesis using assms by (simp add: shrink_no_instance)
next
  case (Some d)
  show ?thesis
  proof (rule wf_rel [OF assms])
    show "length (animations w) \<le> length (animations (shrink e i w))"
      by (simp add: shrink_animations [OF Some])
  next
    fix k assume "k < length (animations w)"
    then show "a_target (animations (shrink e i w) ! k) = a_target (animations w ! k)"
      by (simp add: shrink_animations [OF Some] nth_append cancel_current_target)
  next
    fix x d' assume h: "instances (shrink e i w) x = Some d'"
    show "x \<notin> set (siblings d')
          \<and> (case animation d' of
                None \<Rightarrow> True
              | Some a \<Rightarrow> (\<exists>d. instances w x = Some d \<and> animation d = Some a)
                          \<or> (a < length (animations (shrink e i w))
                              \<and> a_target (animations (shrink e i w) ! a) = x))"
    proof (cases "x = e")
      case True
      then have "d' = d\<lparr>isClosing := True, animation := Some (length (animations w))\<rparr>"
        using h Some by (simp add: shrink_instances)
      then show ?thesis
        using True wf_siblings [OF assms Some]
        by (simp add: shrink_animations [OF Some] nth_append)
    next
      case False
      then have "instances w x = Some d'" using h by (simp add: shrink_instances)
      then show ?thesis using wf_siblings [OF assms] by (auto split: option.splits)
    qed
  qed
qed

lemma wf_expand:
  assumes "wf w"
  shows "wf (expand e i w)"
proof (cases "instances w e")
  case None
  then show ?thesis using assms by (simp add: expand_no_instance)
next
  case (Some d)
  show ?thesis
  proof (rule wf_rel [OF assms])
    show "length (animations w) \<le> length (animations (expand e i w))"
      by (simp add: expand_animations [OF Some])
  next
    fix k assume "k < length (animations w)"
    then show "a_target (animations (expand e i w) ! k) = a_target (animations w ! k)"
      by (simp add: expand_animations [OF Some] nth_append cancel_current_target)
  next
    fix x d' assume h: "instances (expand e i w) x = Some d'"
    show "x \<notin> set (siblings d')
          \<and> (case animation d' of
                None \<Rightarrow> True
              | Some a \<Rightarrow> (\<exists>d. instances w x = Some d \<and> animation d = Some a)
                          \<or> (a < length (animations (expand e i w))
                              \<and> a_target (animations (expand e i w) ! a) = x))"
    proof (cases "x = e")
      case True
      then have "d' = d\<lparr>isExpanding := True, animation := Some (length (animations w))\<rparr>"
        using h Some by (simp add: expand_instances)
      then show ?thesis
        using True wf_siblings [OF assms Some]
        by (simp add: expand_animations [OF Some] nth_append)
    next
      case False
      then have "instances w x = Some d'" using h by (simp add: expand_instances)
      then show ?thesis using wf_siblings [OF assms] by (auto split: option.splits)
    qed
  qed
qed

text \<open>Steps that leave the animations' targets alone and touch, in the \<open>Details\<close> objects,
  at most the flags, the siblings (never adding the section itself) or reset \<open>animation\<close>.\<close>

lemma wf_same_animations:
  assumes w: "wf w"
    and len: "length (animations w') = length (animations w)"
    and tgt: "\<And>k. k < length (animations w) \<Longrightarrow> a_target (animations w' ! k) = a_target (animations w ! k)"
    and rel: "\<And>x d'. instances w' x = Some d' \<Longrightarrow>
                x \<notin> set (siblings d')
                \<and> (animation d' = None \<or> (\<exists>d. instances w x = Some d \<and> animation d = animation d'))"
  shows "wf w'"
proof (rule wf_rel [OF w])
  show "length (animations w) \<le> length (animations w')" using len by simp
next
  fix k assume "k < length (animations w)"
  then show "a_target (animations w' ! k) = a_target (animations w ! k)" by (rule tgt)
next
  fix x d' assume "instances w' x = Some d'"
  from rel [OF this]
  show "x \<notin> set (siblings d')
        \<and> (case animation d' of
              None \<Rightarrow> True
            | Some a \<Rightarrow> (\<exists>d. instances w x = Some d \<and> animation d = Some a)
                        \<or> (a < length (animations w') \<and> a_target (animations w' ! a) = x))"
    by (auto split: option.splits)
qed

lemma wf_upd_instance:
  assumes "wf w" and "\<And>d. animation (f d) = animation d \<or> animation (f d) = None"
    and "\<And>d. siblings (f d) = siblings d"
  shows "wf (upd_instance e f w)"
proof (rule wf_same_animations [OF assms(1)])
  fix x d' assume h: "instances (upd_instance e f w) x = Some d'"
  show "x \<notin> set (siblings d')
        \<and> (animation d' = None \<or> (\<exists>d. instances w x = Some d \<and> animation d = animation d'))"
  proof (cases "x = e")
    case True
    then obtain d where d: "instances w e = Some d" "d' = f d"
      using h by (auto simp: upd_instance_instances)
    then show ?thesis
      using True wf_siblings [OF assms(1) d(1)] assms(2) [of d] assms(3) [of d] by auto
  next
    case False
    then have "instances w x = Some d'" using h by (simp add: upd_instance_instances)
    then show ?thesis using wf_siblings [OF assms(1)] by auto
  qed
qed simp_all

lemma wf_cong: "instances w' = instances w \<Longrightarrow> animations w' = animations w \<Longrightarrow> wf w' = wf w"
  by (simp add: wf_def)

lemma wf_upd_element: "wf (upd_element e f w) = wf w"
  by (rule wf_cong) simp_all

lemma wf_set_cancel_events: "wf (w\<lparr>cancel_events := r\<rparr>) = wf w"
  by (rule wf_cong) simp_all

lemma wf_set_finish_events: "wf (w\<lparr>finish_events := r\<rparr>) = wf w"
  by (rule wf_cong) simp_all

lemma wf_set_frame_requests: "wf (w\<lparr>frame_requests := r\<rparr>) = wf w"
  by (rule wf_cong) simp_all

lemma wf_set_timeouts: "wf (w\<lparr>timeouts := r\<rparr>) = wf w"
  by (rule wf_cong) simp_all

lemma wf_onAnimationFinish: "wf w \<Longrightarrow> wf (onAnimationFinish e b w)"
  by (simp add: onAnimationFinish_def Let_def wf_upd_element wf_upd_instance)

lemma wf_mark_finished:
  assumes "wf w"
  shows "wf (mark_finished a w)"
proof (rule wf_same_animations [OF assms])
  fix k assume "k < length (animations w)"
  then show "a_target (animations (mark_finished a w) ! k) = a_target (animations w ! k)"
    by (simp add: mark_finished_nth)
next
  fix x d' assume "instances (mark_finished a w) x = Some d'"
  then show "x \<notin> set (siblings d')
        \<and> (animation d' = None \<or> (\<exists>d. instances w x = Some d \<and> animation d = animation d'))"
    using wf_siblings [OF assms] by simp
qed simp

lemma wf_finish: "wf w \<Longrightarrow> wf (finish a w)"
  by (simp add: finish_def onfinish_eq wf_onAnimationFinish wf_mark_finished)

lemma wf_dispatch_finish: "wf w \<Longrightarrow> wf (dispatch_finish w)"
  by (simp add: dispatch_finish_def Let_def onfinish_eq wf_onAnimationFinish wf_set_finish_events
        split: list.splits)

lemma wf_oncancel: "wf w \<Longrightarrow> wf (oncancel x w)"
  by (cases "handlers x") (simp_all add: oncancel_def wf_upd_instance)

lemma wf_dispatch_cancel: "wf w \<Longrightarrow> wf (dispatch_cancel w)"
  by (simp add: dispatch_cancel_def Let_def wf_oncancel wf_set_cancel_events split: list.splits)

lemma wf_tick:
  assumes "wf w"
  shows "wf (tick a h w)"
proof (rule wf_same_animations [OF assms])
  show "length (animations (tick a h w)) = length (animations w)" by (simp add: tick_def)
next
  fix k assume "k < length (animations w)"
  then show "a_target (animations (tick a h w) ! k) = a_target (animations w ! k)"
    by (simp add: tick_def nth_list_update)
next
  fix x d' assume "instances (tick a h w) x = Some d'"
  then have "instances w x = Some d'" by (simp add: tick_def split: if_splits)
  then show "x \<notin> set (siblings d')
        \<and> (animation d' = None \<or> (\<exists>d. instances w x = Some d \<and> animation d = animation d'))"
    using wf_siblings [OF assms] by simp
qed

lemma wf_construct:
  assumes "wf w" and "instances w e = None"
  shows "wf (construct e w)"
proof (rule wf_same_animations [OF assms(1)])
  fix x d' assume h: "instances (construct e w) x = Some d'"
  show "x \<notin> set (siblings d')
        \<and> (animation d' = None \<or> (\<exists>d. instances w x = Some d \<and> animation d = animation d'))"
  proof (cases "x = e")
    case True
    then show ?thesis using h by (auto simp: construct_def)
  next
    case False
    then have "instances w x = Some d'" using h by (simp add: construct_def)
    then show ?thesis using wf_siblings [OF assms(1)] by simp
  qed
qed (simp_all add: construct_def)

lemma wf_capture_siblings:
  assumes "wf w"
  shows "wf (capture_siblings e w)"
proof (rule wf_same_animations [OF assms])
  fix x d' assume h: "instances (capture_siblings e w) x = Some d'"
  show "x \<notin> set (siblings d')
        \<and> (animation d' = None \<or> (\<exists>d. instances w x = Some d \<and> animation d = animation d'))"
  proof (cases "x = e")
    case True
    then show ?thesis using h by (auto simp: capture_siblings_def upd_instance_instances)
  next
    case False
    then have "instances w x = Some d'"
      using h by (simp add: capture_siblings_def upd_instance_instances)
    then show ?thesis using wf_siblings [OF assms] by simp
  qed
qed (simp_all add: capture_siblings_def)

lemma wf_foldl_shrink: "wf w \<Longrightarrow> wf (foldl (\<lambda>w sib. shrink sib i w) w sibs)"
  by (induction sibs arbitrary: w) (simp_all add: wf_shrink)

lemma wf_open_section: "wf w \<Longrightarrow> wf (open_section e i w)"
  by (simp add: open_section_def Let_def wf_set_frame_requests wf_upd_element wf_foldl_shrink
        split: option.splits)

lemma wf_onClick: "wf w \<Longrightarrow> wf (onClick e w)"
  by (simp add: onClick_def Let_def wf_open_section wf_shrink wf_upd_element split: option.splits)

lemma wf_foldl_expand:
  "wf w \<Longrightarrow> wf (foldl (\<lambda>w (e, instant). expand e instant w) w reqs)"
  by (induction reqs arbitrary: w) (simp_all add: wf_expand split: prod.splits)

lemma wf_frame: "wf w \<Longrightarrow> wf (frame w)"
  unfolding frame_def by (rule wf_foldl_expand) (simp add: wf_set_frame_requests)

lemma wf_step: "wf w \<Longrightarrow> wf (step w act)"
  by (cases act)
     (simp_all add: wf_construct wf_onClick wf_open_section wf_shrink wf_frame wf_finish
        wf_dispatch_finish wf_dispatch_cancel wf_tick wf_capture_siblings wf_set_timeouts
        split: list.splits)

lemma wf_run: "wf w \<Longrightarrow> wf (run acts w)"
  unfolding run_def by (induction acts arbitrary: w) (simp_all add: wf_step)

lemma wf_reachable: "wf (run acts (initial_world els par chs))"
  by (rule wf_run) (rule wf_initial)


lemmas details_eval =
  run_def initial_world_def construct_def onClick_def open_section_def shrink_def expand_def
  frame_def finish_def onAnimationFinish_def upd_element_def upd_instance_def cancel_current_def
  cancel_def animate_def offsetHeight_def running_on_def Let_def capture_siblings_def
  dispatch_cancel_def dispatch_finish_def onfinish_def oncancel_def mark_finished_def tick_def

text \<open>
  Claim C4, as the code has it. A click on the summary of a section chooses between
  \<open>open\<close> and \<open>shrink\<close> from two flags alone, the \<open>isClosing\<close> flag and the element's
  \<open>open\<close> flag; \<open>isExpanding\<close> never changes the choice. When \<open>isClosing\<close> is set, or the
  \<open>open\<close> flag is clear, the click calls \<open>open\<close>: a section whose \<open>isClosing\<close> flag is set is
  treated as closed. When \<open>isClosing\<close> is clear and the \<open>open\<close> flag is set, the click calls
  \<open>shrink\<close>: such a section is treated as open.
\<close>

theorem click_chooses_by_isClosing_and_open:
  assumes "instances w e = Some d"
  shows "(isClosing d \<or> \<not> el_open (elements w e) \<longrightarrow>
            onClick e w = open_section e False (upd_element e (\<lambda>x. x\<lparr>style_overflow := ''hidden''\<rparr>) w))
         \<and> (\<not> isClosing d \<and> el_open (elements w e) \<longrightarrow>
            onClick e w = shrink e False (upd_element e (\<lambda>x. x\<lparr>style_overflow := ''hidden''\<rparr>) w))"
  using assms by (simp add: onClick_def Let_def)

lemma ex_closing_value:
  "instances ex_closing 0 = Some \<lparr>animation = Some 1, isClosing = True, isExpanding = False, siblings = []\<rparr>"
  "el_open (elements ex_closing 0)"
  "frame_requests ex_closing = []"
  "classList (elements ex_closing 0) = {''visible'', ''accordion''}"
  "in_flight ex_closing 0 = [1]"
  "handlers (animations ex_closing ! 1) = Shrinking"
  by (simp_all add: ex_closing_def ex_page_def ex_details_def details_eval in_flight_def)

lemma ex_opening_value:
  "instances ex_opening 0 = Some \<lparr>animation = Some 0, isClosing = False, isExpanding = True, siblings = []\<rparr>"
  "el_open (elements ex_opening 0)"
  "frame_requests ex_opening = []"
  "classList (elements ex_opening 0) = {''accordion''}"
  "in_flight ex_opening 0 = [0]"
  "handlers (animations ex_opening ! 0) = Expanding"
  by (simp_all add: ex_opening_def ex_page_def ex_details_def details_eval in_flight_def)

lemma open_section_frame_requests_plain:
  "instances w e = Some d \<Longrightarrow> ''singleton'' \<notin> classList (elements w e) \<Longrightarrow>
   frame_requests (open_section e i w) = frame_requests w @ [(e, i)]"
  by (simp add: open_section_def Let_def)

text \<open>
  Claim C4 as stated fails. In \<open>ex_closing\<close> the section is open with its closing in
  flight; a click calls \<open>open\<close>, which is not what \<open>shrink\<close> does there. In \<open>ex_opening\<close> the
  section's opening is in flight; a click calls \<open>shrink\<close>, which is not what \<open>open\<close> does
  there.
\<close>

theorem click_during_closing_counterexample:
  "instances ex_closing 0 = Some \<lparr>animation = Some 1, isClosing = True, isExpanding = False, siblings = []\<rparr>
   \<and> el_open (elements ex_closing 0)
   \<and> in_flight ex_closing 0 = [1] \<and> handlers (animations ex_closing ! 1) = Shrinking
   \<and> onClick 0 ex_closing = open_section 0 False (upd_element 0 (\<lambda>x. x\<lparr>style_overflow := ''hidden''\<rparr>) ex_closing)
   \<and> onClick 0 ex_closing \<noteq> shrink 0 False (upd_element 0 (\<lambda>x. x\<lparr>style_overflow := ''hidden''\<rparr>) ex_closing)
   \<and> instances ex_opening 0 = Some \<lparr>animation = Some 0, isClosing = False, isExpanding = True, siblings = []\<rparr>
   \<and> el_open (elements ex_opening 0)
   \<and> in_flight ex_opening 0 = [0] \<and> handlers (animations ex_opening ! 0) = Expanding
   \<and> onClick 0 ex_opening = shrink 0 False (upd_element 0 (\<lambda>x. x\<lparr>style_overflow := ''hidden''\<rparr>) ex_opening)
   \<and> onClick 0 ex_opening \<noteq> open_section 0 False (upd_element 0 (\<lambda>x. x\<lparr>style_overflow := ''hidden''\<rparr>) ex_opening)"
proof -
  let ?h = "upd_element 0 (\<lambda>x. x\<lparr>style_overflow := ''hidden''\<rparr>)"
  have a: "onClick 0 ex_closing = open_section 0 False (?h ex_closing)"
    by (simp add: onClick_def Let_def ex_closing_value)
  have b: "onClick 0 ex_opening = shrink 0 False (?h ex_opening)"
    by (simp add: onClick_def Let_def ex_opening_value)
  have c: "frame_requests (open_section 0 False (?h ex_closing)) = [(0, False)]"
    by (subst open_section_frame_requests_plain) (simp_all add: ex_closing_value)
  have d: "frame_requests (shrink 0 False (?h ex_closing)) = []"
    by (simp add: ex_closing_value)
  have e: "frame_requests (open_section 0 False (?h ex_opening)) = [(0, False)]"
    by (subst open_section_frame_requests_plain) (simp_all add: ex_opening_value)
  have f: "frame_requests (shrink 0 False (?h ex_opening)) = []"
    by (simp add: ex_opening_value)
  have g: "open_section 0 False (?h ex_closing) \<noteq> shrink 0 False (?h ex_closing)"
    using c d by (metis list.distinct(1))
  have h: "shrink 0 False (?h ex_opening) \<noteq> open_section 0 False (?h ex_opening)"
    using e f by (metis list.distinct(1))
  show ?thesis
    using a b g h ex_closing_value ex_opening_value by simp
qed

theorem click_chooses_by_isClosing_and_open_witness:
  "onClick 0 ex_closing = open_section 0 False (upd_element 0 (\<lambda>x. x\<lparr>style_overflow := ''hidden''\<rparr>) ex_closing)
   \<and> onClick 0 ex_opening = shrink 0 False (upd_element 0 (\<lambda>x. x\<lparr>style_overflow := ''hidden''\<rparr>) ex_opening)"
  using click_chooses_by_isClosing_and_open [OF ex_closing_value(1)]
        click_chooses_by_isClosing_and_open [OF ex_opening_value(1)]
  by (simp add: ex_closing_value ex_opening_value)

text \<open>
  The flags a click reads are not the transition in flight. In \<open>ex_reshrunk\<close> a closing
  animation runs while \<open>isClosing\<close> is clear, because the \<open>oncancel\<close> of the closing animation
  it replaced has cleared the flag; a click there calls \<open>shrink\<close>.
\<close>

lemma click_follows_flags_not_animation:
  "instances ex_reshrunk 0 = Some \<lparr>animation = Some 2, isClosing = False, isExpanding = False, siblings = []\<rparr>
   \<and> el_open (elements ex_reshrunk 0)
   \<and> in_flight ex_reshrunk 0 = [2] \<and> handlers (animations ex_reshrunk ! 2) = Shrinking
   \<and> onClick 0 ex_reshrunk = shrink 0 False (upd_element 0 (\<lambda>x. x\<lparr>style_overflow := ''hidden''\<rparr>) ex_reshrunk)"
proof -
  have v: "instances ex_reshrunk 0 = Some \<lparr>animation = Some 2, isClosing = False, isExpanding = False, siblings = []\<rparr>"
    "el_open (elements ex_reshrunk 0)" "in_flight ex_reshrunk 0 = [2]"
    "handlers (animations ex_reshrunk ! 2) = Shrinking"
    by (simp_all add: ex_reshrunk_def ex_page_def ex_details_def details_eval in_flight_def)
  show ?thesis using v by (simp add: onClick_def Let_def)
qed

text \<open>
  Claim C6 does not hold of the code. \<open>shrink\<close> and \<open>expand\<close> cancel the animation the
  section holds before they create the next one, but the \<open>onfinish\<close> of an animation that
  was replaced still runs \<open>onAnimationFinish\<close>, which sets \<open>this.animation\<close> to null. In
  \<open>ex_stale\<close> the section was opened with \<open>el.expand(true)\<close> and clicked before the finish
  event of the instant animation was dispatched: the closing animation 1 runs, and the
  section holds no animation. The next click starts closing animation 2 and cancels
  nothing: two animations are in flight on the section.
\<close>

theorem stale_finish_leaves_two_animations_in_flight:
  "instances ex_stale 0 = Some \<lparr>animation = None, isClosing = False, isExpanding = False, siblings = []\<rparr>
   \<and> in_flight ex_stale 0 = [1]
   \<and> in_flight (step ex_stale (Click 0)) 0 = [1, 2]"
  by (simp add: ex_stale_def ex_page_def ex_details_def details_eval in_flight_def)

theorem stale_finish_leaves_two_animations_in_flight_witness:
  "length (in_flight (step ex_stale (Click 0)) 0) = 2"
  using stale_finish_leaves_two_animations_in_flight by simp


lemma in_flight_empty:
  "in_flight w e = [] \<longleftrightarrow>
     (\<forall>k < length (animations w). \<not> (a_target (animations w ! k) = e \<and> playState (animations w ! k) = Running))"
  by (auto simp: in_flight_def filter_empty_conv)

lemma running_on_None: "running_on w e = None \<longleftrightarrow> in_flight w e = []"
  by (auto simp: running_on_def find_None_iff in_flight_empty in_set_conv_nth)

lemma in_flight_append:
  assumes "animations w' = xs @ [x]"
  shows "in_flight w' e
           = filter (\<lambda>a. a_target (xs ! a) = e \<and> playState (xs ! a) = Running) [0..<length xs]
             @ (if a_target x = e \<and> playState x = Running then [length xs] else [])"
proof -
  have "filter (\<lambda>a. a_target ((xs @ [x]) ! a) = e \<and> playState ((xs @ [x]) ! a) = Running) [0..<length xs]
          = filter (\<lambda>a. a_target (xs ! a) = e \<and> playState (xs ! a) = Running) [0..<length xs]"
    by (rule filter_cong [OF refl]) (simp add: nth_append)
  then show ?thesis by (simp add: in_flight_def assms)
qed

lemma cancel_current_in_flight_empty:
  assumes "in_flight w e = []"
  shows "filter (\<lambda>a. a_target (animations (cancel_current x w) ! a) = e
                     \<and> playState (animations (cancel_current x w) ! a) = Running)
           [0..<length (animations w)] = []"
  using assms unfolding filter_empty_conv in_flight_empty
  by (auto simp: cancel_current_nth split: if_splits)

lemma shrink_in_flight_other:
  assumes "in_flight w e = []" and "x \<noteq> e"
  shows "in_flight (shrink x i w) e = []"
proof (cases "instances w x")
  case None
  then show ?thesis using assms by (simp add: shrink_no_instance)
next
  case (Some d)
  show ?thesis
    using assms(2)
    by (simp add: in_flight_append [OF shrink_animations [OF Some]]
          cancel_current_in_flight_empty [OF assms(1)])
qed

lemma foldl_shrink_in_flight_other:
  "in_flight w e = [] \<Longrightarrow> e \<notin> set sibs \<Longrightarrow>
   in_flight (foldl (\<lambda>w sib. shrink sib i w) w sibs) e = []"
  by (induction sibs arbitrary: w) (auto simp: shrink_in_flight_other)

lemma foldl_shrink_fields [simp]:
  "elements (foldl (\<lambda>w sib. shrink sib i w) w sibs) = elements w"
  "frame_requests (foldl (\<lambda>w sib. shrink sib i w) w sibs) = frame_requests w"
  "timeouts (foldl (\<lambda>w sib. shrink sib i w) w sibs) = timeouts w"
  by (induction sibs arbitrary: w) simp_all

lemma foldl_shrink_instances_other:
  "e \<notin> set sibs \<Longrightarrow> instances (foldl (\<lambda>w sib. shrink sib i w) w sibs) e = instances w e"
  by (induction sibs arbitrary: w) (simp_all add: shrink_instances)

lemma open_section_elements:
  "instances w e = Some d \<Longrightarrow>
   elements (open_section e i w) x
     = (if x = e then (elements w e)\<lparr>style_height := Some (Px (offsetHeight w e)), el_open := True\<rparr>
        else elements w x)"
  by (simp add: open_section_def Let_def)

lemma open_section_frame_requests:
  "instances w e = Some d \<Longrightarrow> frame_requests (open_section e i w) = frame_requests w @ [(e, i)]"
  by (simp add: open_section_def Let_def)

lemma open_section_instances_self:
  "instances w e = Some d \<Longrightarrow> e \<notin> set (siblings d) \<Longrightarrow> instances (open_section e i w) e = Some d"
  by (simp add: open_section_def Let_def foldl_shrink_instances_other)

lemma open_section_in_flight_self:
  assumes "instances w e = Some d" and "e \<notin> set (siblings d)" and "in_flight w e = []"
  shows "in_flight (open_section e i w) e = []"
proof -
  let ?w3 = "(upd_element e (\<lambda>x. x\<lparr>el_open := True\<rparr>)
               (upd_element e (\<lambda>x. x\<lparr>style_height := Some (Px (offsetHeight w e))\<rparr>) w))
             \<lparr>frame_requests := frame_requests w @ [(e, i)]\<rparr>"
  have a: "in_flight ?w3 e = []" using assms(3) by (simp add: in_flight_def)
  have b: "in_flight (foldl (\<lambda>w sib. shrink sib i w) ?w3 (siblings d)) e = []"
    using a assms(2) by (rule foldl_shrink_in_flight_other)
  show ?thesis
    using a b by (simp add: open_section_def Let_def assms(1))
qed

lemma offsetHeight_at_rest:
  "in_flight w e = [] \<Longrightarrow>
   offsetHeight w e = (case style_height (elements w e) of
        Some (Px h) \<Rightarrow> h
      | None \<Rightarrow> (if el_open (elements w e)
                 then summary_offsetHeight (elements w e) + content_offsetHeight (elements w e)
                 else summary_offsetHeight (elements w e)))"
  using running_on_None [of w e] by (simp add: offsetHeight_def)

lemma onfinish_expanding_opens:
  assumes "a_target x = e" and "handlers x = Expanding"
  shows "el_open (elements (onfinish x w) e)"
    and "''visible'' \<in> classList (elements (onfinish x w) e)"
  using assms by (simp_all add: onfinish_eq onAnimationFinish_elements)

lemma expand_from_closed:
  assumes w: "wf w" and d: "instances w e = Some d"
    and closed: "\<not> el_open (elements w e)" "style_height (elements w e) = None"
    and rest: "in_flight w e = []" "frame_requests w = []"
    and h: "summary_offsetHeight (elements w e) = 40" "content_offsetHeight (elements w e) = 160"
  shows "length (animations (frame (open_section e i w))) = Suc (length (animations (open_section e i w)))"
    and "animations (frame (open_section e i w)) ! length (animations (open_section e i w))
           = new_animation e 40 200 i Expanding"
    and "in_flight (frame (open_section e i w)) e = (if i then [] else [length (animations (open_section e i w))])"
    and "finish_events (frame (open_section e i w))
           = finish_events (open_section e i w) @ (if i then [length (animations (open_section e i w))] else [])"
proof -
  define w1 where "w1 = open_section e i w"
  define w1' where "w1' = w1\<lparr>frame_requests := []\<rparr>"
  have sib: "e \<notin> set (siblings d)" using w d by (rule wf_siblings)
  have oh: "offsetHeight w e = 40"
    by (simp add: offsetHeight_at_rest [OF rest(1)] closed h)
  have i1: "instances w1 e = Some d" unfolding w1_def using d sib by (rule open_section_instances_self)
  have fl1: "in_flight w1 e = []" unfolding w1_def using d sib rest(1) by (rule open_section_in_flight_self)
  have el1: "style_height (elements w1 e) = Some (Px 40)"
      "summary_offsetHeight (elements w1 e) = 40" "content_offsetHeight (elements w1 e) = 160"
    by (simp_all add: w1_def open_section_elements [OF d] oh h)
  have fr1: "frame_requests w1 = [(e, i)]"
    by (simp add: w1_def open_section_frame_requests [OF d] rest(2))
  have fr: "frame w1 = expand e i w1'"
    by (simp add: frame_def fr1 w1'_def)
  have i1': "instances w1' e = Some d" by (simp add: w1'_def i1)
  have fl1': "in_flight w1' e = []" using fl1 by (simp add: w1'_def in_flight_def)
  have oh1: "offsetHeight w1' e = 40"
    by (simp add: offsetHeight_at_rest [OF fl1']) (simp add: w1'_def el1)
  have el1': "summary_offsetHeight (elements w1' e) + content_offsetHeight (elements w1' e) = 200"
    by (simp add: w1'_def el1)
  have an: "animations (frame w1) = animations (cancel_current e w1') @ [new_animation e 40 200 i Expanding]"
    unfolding fr expand_animations [OF i1'] oh1 el1' by simp
  have len: "length (animations (cancel_current e w1')) = length (animations w1)"
    by (simp add: w1'_def)
  have len1: "length (animations w1') = length (animations w1)"
    by (simp add: w1'_def)
  show "length (animations (frame (open_section e i w))) = Suc (length (animations (open_section e i w)))"
    using an len by (simp add: w1_def)
  show "animations (frame (open_section e i w)) ! length (animations (open_section e i w))
           = new_animation e 40 200 i Expanding"
    using an len by (simp add: w1_def [symmetric] nth_append)
  show "in_flight (frame (open_section e i w)) e = (if i then [] else [length (animations (open_section e i w))])"
    unfolding w1_def [symmetric]
    using cancel_current_in_flight_empty [OF fl1', of e] len1
    by (simp add: in_flight_append [OF an])
  show "finish_events (frame (open_section e i w))
           = finish_events (open_section e i w) @ (if i then [length (animations (open_section e i w))] else [])"
    unfolding w1_def [symmetric] fr expand_finish_events [OF i1'] by (simp add: w1'_def)
qed

text \<open>
  Claim C8. Take a closed section at rest (open flag clear, no inline height, nothing in
  flight) whose summary is 40 high and whose content is 160 high. Activating it, by
  \<open>el.expand(instant)\<close> or by a click on its summary (where \<open>instant\<close> is false), and letting
  the animation frame run, creates one height animation from \<open>40px\<close> to \<open>200px\<close>, of duration
  300, or 0 when \<open>instant\<close> is set. The animation of duration 300 is the one in flight on
  the section, and when it finishes the section's open flag is set and its class list holds
  \<open>visible\<close>; the animation of duration 0 has its finish event queued. Whenever the
  \<open>onfinish\<close> of that animation runs, in whatever state \<open>w'\<close> the page is by then, it leaves
  the open flag set and \<open>visible\<close> in the class list.
\<close>

theorem activate_closed_section_animates_40_to_200:
  assumes "w = run acts (initial_world els par chs)" and "instances w e = Some d"
    and "\<not> el_open (elements w e)" and "style_height (elements w e) = None"
    and "in_flight w e = []" and "frame_requests w = []"
    and "summary_offsetHeight (elements w e) = 40" and "content_offsetHeight (elements w e) = 160"
    and "w1 = step w (CallExpand e instant) \<or> (w1 = step w (Click e) \<and> \<not> instant)"
  shows "length (animations (step w1 Frame)) = Suc (length (animations w1))
         \<and> animations (step w1 Frame) ! length (animations w1)
             = \<lparr>a_target = e, keyframes = (Px 40, Px 200), duration = (if instant then 0 else 300),
                easing = ''ease-in-out'', playState = (if instant then Finished else Running),
                handlers = Expanding, current = 40\<rparr>
         \<and> (\<not> instant \<longrightarrow>
               in_flight (step w1 Frame) e = [length (animations w1)]
               \<and> el_open (elements (step (step w1 Frame) (Finish (length (animations w1)))) e)
               \<and> ''visible'' \<in> classList (elements (step (step w1 Frame) (Finish (length (animations w1)))) e))
         \<and> (instant \<longrightarrow> finish_events (step w1 Frame) = finish_events w1 @ [length (animations w1)])
         \<and> el_open (elements (onfinish (animations (step w1 Frame) ! length (animations w1)) w') e)
         \<and> ''visible'' \<in> classList (elements (onfinish (animations (step w1 Frame) ! length (animations w1)) w') e)"
proof -
  have w: "wf w" using assms(1) by (simp add: wf_reachable)
  let ?v = "upd_element e (\<lambda>x. x\<lparr>style_overflow := ''hidden''\<rparr>) w"
  have v: "wf ?v" "instances ?v e = Some d" "\<not> el_open (elements ?v e)"
    "style_height (elements ?v e) = None" "in_flight ?v e = []" "frame_requests ?v = []"
    "summary_offsetHeight (elements ?v e) = 40" "content_offsetHeight (elements ?v e) = 160"
    using w assms(2-8) by (simp_all add: wf_upd_element in_flight_def)
  have click: "step w (Click e) = open_section e False ?v"
    using assms(2,3) by (simp add: onClick_def Let_def)
  have "\<exists>u. (wf u \<and> instances u e = Some d \<and> \<not> el_open (elements u e)
            \<and> style_height (elements u e) = None \<and> in_flight u e = [] \<and> frame_requests u = []
            \<and> summary_offsetHeight (elements u e) = 40 \<and> content_offsetHeight (elements u e) = 160)
            \<and> w1 = open_section e instant u"
    using assms(9)
  proof
    assume "w1 = step w (CallExpand e instant)"
    then have "w1 = open_section e instant w" by simp
    then show ?thesis using w assms(2-8) by blast
  next
    assume "w1 = step w (Click e) \<and> \<not> instant"
    then have "w1 = open_section e instant ?v" using click by simp
    then show ?thesis using v by blast
  qed
  then obtain u where u: "wf u" "instances u e = Some d" "\<not> el_open (elements u e)"
    "style_height (elements u e) = None" "in_flight u e = []" "frame_requests u = []"
    "summary_offsetHeight (elements u e) = 40" "content_offsetHeight (elements u e) = 160"
    and w1: "w1 = open_section e instant u"
    by blast
  define a where "a = length (animations w1)"
  define w2 where "w2 = frame w1"
  have l: "length (animations w2) = Suc a"
    and n: "animations w2 ! a = new_animation e 40 200 instant Expanding"
    and f: "in_flight w2 e = (if instant then [] else [a])"
    and q: "finish_events w2 = finish_events w1 @ (if instant then [a] else [])"
    unfolding w2_def a_def w1 using u by (rule expand_from_closed)+
  have fin: "finish a w2 = onfinish (animations w2 ! a) (mark_finished a w2)" if "\<not> instant"
    using that l n by (simp add: finish_def)
  have o: "el_open (elements (onfinish (animations w2 ! a) z) e)"
      "''visible'' \<in> classList (elements (onfinish (animations w2 ! a) z) e)" for z
    by (rule onfinish_expanding_opens; simp add: n)+
  have c1: "length (animations (step w1 Frame)) = Suc (length (animations w1))"
    using l by (simp add: w2_def a_def)
  have c2: "animations (step w1 Frame) ! length (animations w1)
             = \<lparr>a_target = e, keyframes = (Px 40, Px 200), duration = (if instant then 0 else 300),
                easing = ''ease-in-out'', playState = (if instant then Finished else Running),
                handlers = Expanding, current = 40\<rparr>"
    using n by (simp add: w2_def a_def new_animation_def)
  have c3: "in_flight (step w1 Frame) e = [length (animations w1)]" if "\<not> instant"
    using f that by (simp add: w2_def a_def)
  have c4: "el_open (elements (step (step w1 Frame) (Finish (length (animations w1)))) e)"
      "''visible'' \<in> classList (elements (step (step w1 Frame) (Finish (length (animations w1)))) e)"
    if "\<not> instant"
    using o [of "mark_finished a w2"] fin [OF that] by (simp_all add: w2_def a_def)
  have c5: "finish_events (step w1 Frame) = finish_events w1 @ [length (animations w1)]" if "instant"
    using q that by (simp add: w2_def a_def)
  have c6: "el_open (elements (onfinish (animations (step w1 Frame) ! length (animations w1)) w') e)"
      "''visible'' \<in> classList (elements (onfinish (animations (step w1 Frame) ! length (animations w1)) w') e)"
    using o [of w'] by (simp_all add: w2_def a_def)
  show ?thesis
    using c1 c2 c3 c4 c5 c6 by blast
qed

theorem activate_closed_section_animates_40_to_200_witness:
  "animations (step (step ex_closed (Click 0)) Frame) ! 0
     = \<lparr>a_target = 0, keyframes = (Px 40, Px 200), duration = 300,
        easing = ''ease-in-out'', playState = Running, handlers = Expanding, current = 40\<rparr>
   \<and> animations (step (step ex_closed (CallExpand 0 True)) Frame) ! 0
     = \<lparr>a_target = 0, keyframes = (Px 40, Px 200), duration = 0,
        easing = ''ease-in-out'', playState = Finished, handlers = Expanding, current = 40\<rparr>
   \<and> finish_events (step (step ex_closed (CallExpand 0 True)) Frame) = [0]
   \<and> el_open (elements (step (step (step ex_closed (Click 0)) Frame) (Finish 0)) 0)
   \<and> ''visible'' \<in> classList (elements (step (step (step ex_closed (Click 0)) Frame) (Finish 0)) 0)"
proof -
  have a: "instances ex_closed 0 = Some \<lparr>animation = None, isClosing = False, isExpanding = False, siblings = []\<rparr>"
    and b: "\<not> el_open (elements ex_closed 0)" and c: "style_height (elements ex_closed 0) = None"
    and d: "in_flight ex_closed 0 = []" and e: "frame_requests ex_closed = []"
    and f: "summary_offsetHeight (elements ex_closed 0) = 40"
    and g: "content_offsetHeight (elements ex_closed 0) = 160"
    and l: "animations ex_closed = []" "finish_events ex_closed = []"
    by (simp_all add: ex_closed_def ex_page_def ex_details_def run_def initial_world_def construct_def
          in_flight_def)
  have h1: "step ex_closed (Click 0) = step ex_closed (CallExpand 0 False) \<or>
            (step ex_closed (Click 0) = step ex_closed (Click 0) \<and> \<not> False)" by simp
  have h2: "step ex_closed (CallExpand 0 True) = step ex_closed (CallExpand 0 True) \<or>
            (step ex_closed (CallExpand 0 True) = step ex_closed (Click 0) \<and> \<not> True)" by simp
  have n1: "animations (onClick 0 ex_closed) = []"
    by (simp add: onClick_def open_section_def Let_def a b l)
  have n2: "animations (open_section 0 True ex_closed) = []"
      "finish_events (open_section 0 True ex_closed) = []"
    by (simp_all add: open_section_def Let_def a l)
  show ?thesis
    using activate_closed_section_animates_40_to_200 [OF ex_closed_def [unfolded ex_page_def] a b c d e f g h1]
          activate_closed_section_animates_40_to_200 [OF ex_closed_def [unfolded ex_page_def] a b c d e f g h2]
    by (simp add: n1 n2)
qed


section \<open>Properties of the accordion: singleton groups\<close>












































lemmas group_eval =
  ex_group_def ex_details_def run_def initial_world_def construct_def onClick_def open_section_def
  shrink_def expand_def frame_def finish_def onAnimationFinish_def upd_element_def upd_instance_def
  cancel_current_def cancel_def animate_def offsetHeight_def running_on_def Let_def
  capture_siblings_def dispatch_cancel_def dispatch_finish_def onfinish_def oncancel_def
  mark_finished_def tick_def in_flight_def settled_def open_sections_def
  closing_started_def no_stray_opening_def holds_def



text \<open>
  The last proviso is needed. In \<open>ex_group_stray\<close> no callback is pending, sibling 3 is open
  and at rest, and an opening animation runs on sibling 2 that the section does not hold.
  Activating section 1 starts a closing on both siblings, yet the stray opening finishes after
  the closing, and sections 1 and 2 are open once the page has settled.
\<close>

lemma stray_opening_reopens_sibling:
  "frame_requests ex_group_stray = []
   \<and> \<not> no_stray_opening ex_group_stray 2
   \<and> closing_started (open_section 1 False ex_group_stray) 2
   \<and> closing_started (open_section 1 False ex_group_stray) 3
   \<and> settled (run [Frame, Finish 3, Finish 4, Finish 5, Finish 2] (open_section 1 False ex_group_stray))
   \<and> open_sections (run [Frame, Finish 3, Finish 4, Finish 5, Finish 2] (open_section 1 False ex_group_stray))
        [1, 2, 3] = [1, 2]"
  by (simp add: ex_group_stray_def group_eval)

end
